(* ===== verification/Prelude.thy ===== *)
theory Prelude
  imports Main "HOL-Library.Word"
begin

text \<open>
  Shared base of the development: machine words, the result type in which every
  \<^verbatim>\<open>exit(1)\<close> and every undefined behaviour of the C++ code is a value, segments and
  overwrites of byte buffers, the byte order of the host, and the two address structures
  of the socket headers. Nothing here depends on a component.
\<close>

unbundle bit_operations_syntax

section \<open>Types\<close>

type_synonym byte = "8 word"
type_synonym u16 = "16 word"
type_synonym u32 = "32 word"
type_synonym u64 = "64 word"

text \<open>
  What stops a C++ function without a result. \<open>Exit\<close> is a call of \<^verbatim>\<open>exit(1)\<close>; the
  others are undefined behaviour the code runs into: an access outside an allocation, the
  use of an uninitialised local variable, the dereference of an \<^verbatim>\<open>end()\<close> iterator,
  \<^verbatim>\<open>front()\<close> of an empty queue, a null pointer, a pointer whose block is not allocated.
\<close>

datatype fault = Exit | OutOfBounds | Uninitialised | EndIterator | EmptyQueue
  | NullPointer | DanglingPointer | UncaughtException

type_synonym 'a result = "fault + 'a"

definition bindR :: "'a result \<Rightarrow> ('a \<Rightarrow> 'b result) \<Rightarrow> 'b result" where
  "bindR m f = (case m of Inl e \<Rightarrow> Inl e | Inr x \<Rightarrow> f x)"

definition mapR :: "('a \<Rightarrow> 'b) \<Rightarrow> 'a result \<Rightarrow> 'b result" where
  "mapR f m = bindR m (\<lambda>x. Inr (f x))"

text \<open>Collections: \<open>wire\<close> for reads and writes of header fields, \<open>sizes\<close> for the
  \<^verbatim>\<open>sizeof\<close> and protocol constants.\<close>

named_theorems wire
named_theorems sizes

section \<open>Constants of the system headers\<close>

definition ETH_ALEN :: int where [sizes]: "ETH_ALEN = 6"
definition ETH_DATA_LEN :: int where [sizes]: "ETH_DATA_LEN = 1500"
definition ETH_FRAME_LEN :: int where [sizes]: "ETH_FRAME_LEN = 1514"
definition sizeof_ether_header :: int where [sizes]: "sizeof_ether_header = 14"
definition sizeof_ether_addr :: int where [sizes]: "sizeof_ether_addr = 6"
definition sizeof_in_addr :: int where [sizes]: "sizeof_in_addr = 4"
definition sizeof_arphdr :: int where [sizes]: "sizeof_arphdr = 8"
definition sizeof_ip :: int where [sizes]: "sizeof_ip = 20"
definition sizeof_udphdr :: int where [sizes]: "sizeof_udphdr = 8"
definition sizeof_icmphdr :: int where [sizes]: "sizeof_icmphdr = 8"

definition ETHERTYPE_IP :: u16 where [sizes]: "ETHERTYPE_IP = 0x0800"
definition ETHERTYPE_ARP :: u16 where [sizes]: "ETHERTYPE_ARP = 0x0806"
definition ARPHRD_ETHER :: u16 where [sizes]: "ARPHRD_ETHER = 1"
definition ARPOP_REQUEST :: u16 where [sizes]: "ARPOP_REQUEST = 1"
definition ARPOP_REPLY :: u16 where [sizes]: "ARPOP_REPLY = 2"
definition IPPROTO_ICMP :: byte where [sizes]: "IPPROTO_ICMP = 1"
definition IPPROTO_UDP :: byte where [sizes]: "IPPROTO_UDP = 17"
definition IP_DF :: u16 where [sizes]: "IP_DF = 0x4000"
definition ICMP_DEST_UNREACH :: byte where [sizes]: "ICMP_DEST_UNREACH = 3"
definition ICMP_FRAG_NEEDED :: byte where [sizes]: "ICMP_FRAG_NEEDED = 4"

section \<open>Buffers, byte order and addresses\<close>

definition segment :: "nat \<Rightarrow> nat \<Rightarrow> 'a list \<Rightarrow> 'a list" where
  "segment i j xs = take (j - i) (drop i xs)"

definition overwrite :: "nat \<Rightarrow> 'a list \<Rightarrow> 'a list \<Rightarrow> 'a list" where
  "overwrite i ys xs = take i xs @ ys @ drop (i + length ys) xs"

text \<open>
  The host is little endian (the Makefiles build natively for x86): the object
  representation of an integer has its low byte first, and \<^verbatim>\<open>htons\<close>, \<^verbatim>\<open>ntohs\<close>
  swap the bytes.
\<close>

definition bytes16 :: "u16 \<Rightarrow> byte list" where
  "bytes16 w = [ucast w, ucast (drop_bit 8 w)]"

definition bytes32 :: "u32 \<Rightarrow> byte list" where
  "bytes32 w = [ucast w, ucast (drop_bit 8 w), ucast (drop_bit 16 w), ucast (drop_bit 24 w)]"

fun le16 :: "byte list \<Rightarrow> u16" where
  "le16 (a # b # _) = ucast a OR push_bit 8 (ucast b)"
| "le16 _ = 0"

fun le32 :: "byte list \<Rightarrow> u32" where
  "le32 (a # b # c # d # _) =
     ucast a OR push_bit 8 (ucast b) OR push_bit 16 (ucast c) OR push_bit 24 (ucast d)"
| "le32 _ = 0"

definition htons :: "u16 \<Rightarrow> u16" where
  "htons w = push_bit 8 w OR drop_bit 8 w"

definition ntohs :: "u16 \<Rightarrow> u16" where
  "ntohs w = push_bit 8 w OR drop_bit 8 w"

text \<open>\<^verbatim>\<open>struct ether_addr\<close> (six octets) and \<^verbatim>\<open>struct in_addr\<close>.\<close>

datatype ether_addr = EtherAddr byte byte byte byte byte byte

record in_addr =
  s_addr :: u32

fun octets :: "ether_addr \<Rightarrow> byte list" where
  "octets (EtherAddr a b c d e f) = [a, b, c, d, e, f]"

fun ether_of :: "byte list \<Rightarrow> ether_addr" where
  "ether_of (a # b # c # d # e # f # _) = EtherAddr a b c d e f"
| "ether_of _ = EtherAddr 0 0 0 0 0 0"

definition in_addr_bytes :: "in_addr \<Rightarrow> byte list" where
  "in_addr_bytes ip = bytes32 (s_addr ip)"

definition in_addr_of :: "byte list \<Rightarrow> in_addr" where
  "in_addr_of bs = \<lparr>s_addr = le32 bs\<rparr>"

section \<open>The result type\<close>

lemma bindR_Inr [simp]: "bindR (Inr x) f = f x"
  by (simp add: bindR_def)

lemma bindR_Inl [simp]: "bindR (Inl e) f = Inl e"
  by (simp add: bindR_def)

lemma bindR_assoc [simp]: "bindR (bindR m f) g = bindR m (\<lambda>x. bindR (f x) g)"
  by (cases m) simp_all

lemma bindR_eq_Inr: "bindR m f = Inr y \<longleftrightarrow> (\<exists>x. m = Inr x \<and> f x = Inr y)"
  by (cases m) simp_all

lemma bindR_eq_Inl: "bindR m f = Inl e \<longleftrightarrow> m = Inl e \<or> (\<exists>x. m = Inr x \<and> f x = Inl e)"
  by (cases m) simp_all

lemma bindR_InrE [elim!]:
  assumes "bindR m f = Inr y"
  obtains x where "m = Inr x" and "f x = Inr y"
  using assms by (auto simp: bindR_eq_Inr)

lemma mapR_simps [simp]: "mapR f (Inr x) = Inr (f x)" "mapR f (Inl e) = Inl e"
  by (simp_all add: mapR_def)

lemma mapR_eq_Inr [simp]: "mapR f m = Inr y \<longleftrightarrow> (\<exists>x. m = Inr x \<and> y = f x)"
  by (cases m) auto

section \<open>Segments and overwrites\<close>

lemma length_segment [simp]: "length (segment i j xs) = min (j - i) (length xs - i)"
  by (auto simp: segment_def)

lemma length_overwrite [simp]:
  "i + length ys \<le> length xs \<Longrightarrow> length (overwrite i ys xs) = length xs"
  by (simp add: overwrite_def)

lemma nth_segment [simp]: "k < j - i \<Longrightarrow> i + k < length xs \<Longrightarrow> segment i j xs ! k = xs ! (i + k)"
  by (simp add: segment_def)

lemma nth_overwrite:
  assumes "i + length ys \<le> length xs" and "k < length xs"
  shows "overwrite i ys xs ! k = (if i \<le> k \<and> k < i + length ys then ys ! (k - i) else xs ! k)"
  using assms by (auto simp: overwrite_def nth_append min_def)

lemma segment_overwrite_same [simp]:
  "i + length ys \<le> length xs \<Longrightarrow> segment i (i + length ys) (overwrite i ys xs) = ys"
  by (simp add: segment_def overwrite_def)

lemma segment_overwrite_disjoint:
  assumes "i + length ys \<le> length xs" and "l \<le> length xs" and "l \<le> i \<or> i + length ys \<le> k"
  shows "segment k l (overwrite i ys xs) = segment k l xs"
  by (rule nth_equalityI) (use assms in \<open>auto simp: nth_overwrite\<close>)

lemma segment_all [simp]: "length xs \<le> j \<Longrightarrow> segment 0 j xs = xs"
  by (simp add: segment_def)

lemma overwrite_segment_id: "j \<le> length xs \<Longrightarrow> i \<le> j \<Longrightarrow> overwrite i (segment i j xs) xs = xs"
  by (rule nth_equalityI) (auto simp: nth_overwrite)

lemma take_overwrite:
  "i + length ys \<le> n \<Longrightarrow> i + length ys \<le> length xs \<Longrightarrow>
   take n (overwrite i ys xs) = overwrite i ys (take n xs)"
  by (rule nth_equalityI) (auto simp: nth_overwrite)

text \<open>A write inside a buffer that is given as a concatenation, and consecutive writes.\<close>

lemma overwrite_skip: "length A \<le> i \<Longrightarrow> overwrite i ys (A @ xs) = A @ overwrite (i - length A) ys xs"
  by (simp add: overwrite_def)

lemma overwrite_here: "length B = length ys \<Longrightarrow> overwrite 0 ys (B @ xs) = ys @ xs"
  by (simp add: overwrite_def)

lemma overwrite_at: "length B = length ys \<Longrightarrow> overwrite (length A) ys (A @ B @ C) = A @ ys @ C"
  by (simp add: overwrite_def)

lemma overwrite_adjacent:
  "i + length ys + length zs \<le> length xs \<Longrightarrow>
   overwrite (i + length ys) zs (overwrite i ys xs) = overwrite i (ys @ zs) xs"
  by (rule nth_equalityI) (auto simp: nth_overwrite nth_append diff_diff_left)

lemma overwrite_before:
  "i + length ys + length zs \<le> length xs \<Longrightarrow>
   overwrite i ys (overwrite (i + length ys) zs xs) = overwrite i (ys @ zs) xs"
  by (rule nth_equalityI) (auto simp: nth_overwrite nth_append diff_diff_left)

lemma overwrite_within:
  "j + length zs \<le> length ys \<Longrightarrow> i + length ys \<le> length xs \<Longrightarrow>
   overwrite (i + j) zs (overwrite i ys xs) = overwrite i (overwrite j zs ys) xs"
  by (rule nth_equalityI) (auto simp: nth_overwrite diff_diff_left)

lemma segment_overwrite_within:
  "l \<le> length ys \<Longrightarrow> i + length ys \<le> length xs \<Longrightarrow>
   segment (i + k) (i + l) (overwrite i ys xs) = segment k l ys"
  by (rule nth_equalityI) (auto simp: nth_overwrite)

lemma overwrite_Nil [simp]: "overwrite i [] xs = xs"
  by (simp add: overwrite_def)

lemma overwrite_0: "overwrite 0 ys xs = ys @ drop (length ys) xs"
  by (simp add: overwrite_def)

lemma segment_Cons: "i < j \<Longrightarrow> i < length xs \<Longrightarrow> segment i j xs = xs ! i # segment (Suc i) j xs"
  by (simp add: segment_def take_Cons' Cons_nth_drop_Suc [symmetric])

lemma segment_Nil [simp]: "j \<le> i \<Longrightarrow> segment i j xs = []"
  by (simp add: segment_def)

lemma segment_skip: "length A \<le> i \<Longrightarrow> segment i j (A @ xs) = segment (i - length A) (j - length A) xs"
  by (simp add: segment_def)

lemma segment_skip_Cons: "0 < i \<Longrightarrow> segment i j (x # xs) = segment (i - 1) (j - 1) xs"
  by (cases i) (simp_all add: segment_def)

lemma overwrite_skip_Cons: "0 < i \<Longrightarrow> overwrite i ys (x # xs) = x # overwrite (i - 1) ys xs"
  by (cases i) (simp_all add: overwrite_def)

lemma segment_at: "segment (length A) (length A + length B) (A @ B @ C) = B"
  by (simp add: segment_def)

lemma split_at: "n \<le> length xs \<Longrightarrow> \<exists>A B. xs = A @ B \<and> length A = n"
  by (metis append_take_drop_id length_take min_absorb2)

section \<open>Byte order\<close>

lemma length_bytes16 [simp]: "length (bytes16 w) = 2"
  by (simp add: bytes16_def)

lemma length_bytes32 [simp]: "length (bytes32 w) = 4"
  by (simp add: bytes32_def)

lemma bit_byteD: "bit (b :: byte) n \<Longrightarrow> n < 8"
  using bit_imp_le_length [of b n] by simp

lemma not_bit_byte: "8 \<le> n \<Longrightarrow> \<not> bit (b :: byte) n"
  using bit_byteD by fastforce

lemma unat_byte_less: "unat (b :: byte) < 256"
proof -
  have "unat b < 2 ^ LENGTH(8)" by (rule unsigned_less)
  then show ?thesis by simp
qed

lemma le16_bytes16 [simp]: "le16 (bytes16 w) = w"
  by (rule bit_word_eqI) (auto simp: bytes16_def bit_simps)

lemma le32_bytes32 [simp]: "le32 (bytes32 w) = w"
  by (rule bit_word_eqI) (auto simp: bytes32_def bit_simps, rule ccontr, simp)

lemma bytes16_le16 [simp]: "bytes16 (le16 [a, b]) = [a, b]"
  by (auto simp: bytes16_def intro!: bit_word_eqI simp: bit_simps not_bit_byte)

lemma bytes32_le32 [simp]: "bytes32 (le32 [a, b, c, d]) = [a, b, c, d]"
  by (auto simp: bytes32_def intro!: bit_word_eqI simp: bit_simps not_bit_byte)

lemma ntohs_htons [simp]: "ntohs (htons w) = w" and htons_ntohs [simp]: "htons (ntohs w) = w"
  by (auto intro!: bit_word_eqI simp: htons_def ntohs_def bit_simps dest: bit_imp_le_length)

lemma ntohs_eq_htons: "ntohs w = htons w"
  by (simp add: ntohs_def htons_def)

lemma htons_htons [simp]: "htons (htons w) = w"
  using ntohs_htons [of w] by (simp add: ntohs_eq_htons)

lemma htons_inject [simp]: "htons v = htons w \<longleftrightarrow> v = w"
  by (metis ntohs_htons)

lemma ntohs_eq_iff: "ntohs w = v \<longleftrightarrow> w = htons v"
  by auto

lemma bytes16_inject [simp]: "bytes16 v = bytes16 w \<longleftrightarrow> v = w"
  by (metis le16_bytes16)

lemma bytes16_htons: "bytes16 (htons w) = [ucast (drop_bit 8 w), ucast w]"
  by (auto simp: bytes16_def htons_def intro!: bit_word_eqI simp: bit_simps dest: bit_imp_le_length)

text \<open>A 16-bit field read from the wire is the big-endian value of its two bytes.\<close>

lemma unat_ntohs_le16: "unat (ntohs (le16 [a, b])) = 256 * unat a + unat b"
proof -
  have "ntohs (le16 [a, b]) = push_bit 8 (ucast a) OR (ucast b :: u16)"
    by (rule bit_word_eqI) (auto simp: ntohs_def bit_simps dest: bit_imp_le_length)
  also have "\<dots> = push_bit 8 (ucast a) + (ucast b :: u16)"
    by (rule disjunctive_add [symmetric]) (auto simp: bit_simps dest: bit_imp_le_length)
  also have "\<dots> = of_nat (256 * unat a + unat b)"
    by (simp add: push_bit_eq_mult)
  finally have "ntohs (le16 [a, b]) = of_nat (256 * unat a + unat b)" .
  moreover have "256 * unat a + unat b < 2 ^ LENGTH(16)"
    using unat_byte_less [of a] unat_byte_less [of b] by simp
  ultimately show ?thesis
    by (simp only: unat_of_nat mod_less)
qed

section \<open>Addresses\<close>

lemma length_octets [simp]: "length (octets m) = 6"
  by (cases m) simp

lemma ether_of_octets [simp]: "ether_of (octets m) = m"
  by (cases m) simp

lemma octets_ether_of: "length bs = 6 \<Longrightarrow> octets (ether_of bs) = bs"
  by (auto simp: numeral_eq_Suc length_Suc_conv)

lemma length_in_addr_bytes [simp]: "length (in_addr_bytes ip) = 4"
  by (simp add: in_addr_bytes_def)

lemma in_addr_of_bytes [simp]: "in_addr_of (in_addr_bytes ip) = ip"
  by (simp add: in_addr_bytes_def in_addr_of_def)

lemma in_addr_bytes_of: "length bs = 4 \<Longrightarrow> in_addr_bytes (in_addr_of bs) = bs"
  by (auto simp: in_addr_bytes_def in_addr_of_def numeral_eq_Suc length_Suc_conv
      simp del: le32.simps)

end
