(* ===== verification/Packet.thy ===== *)
theory Packet
  imports Prelude
begin

text \<open>
  The buffer class of \<^verbatim>\<open>packet.cpp\<close>: a heap block of \<^verbatim>\<open>capacity\<close> bytes of which the
  first \<^verbatim>\<open>writtenByte\<close> hold a frame. Reads and writes outside the frame are silently
  skipped by the code, and a \<^verbatim>\<open>memcpy\<close> outside the block is a fault. The locale
  \<open>packet_field\<close> is the interface every header class builds on: a field at a fixed
  position behind an offset, with its encoding; its lemmas give the round trip and the
  frame laws of all getters and setters at once.
\<close>

section \<open>The class Packet\<close>

text \<open>The two counters are of type \<^verbatim>\<open>int\<close>. Every packet of the program has a capacity of 1514, so no sum or
  difference of offsets leaves the 32 bits; the one expression the class itself scales, \<^verbatim>\<open>capacity << 3\<close>, is kept
  at its width.\<close>

record packet =
  writtenByte :: int
  capacity :: int
  inMemory :: "byte list"

text \<open>The argument \<open>mem\<close> is what \<^verbatim>\<open>malloc\<close> returns: \<open>None\<close> for the null pointer, else
  the block with whatever bytes it holds.\<close>

definition Packet_new :: "byte list option \<Rightarrow> int \<Rightarrow> packet result" where
  "Packet_new mem cap =
     (case mem of
        None \<Rightarrow> Inl Exit
      | Some m \<Rightarrow> Inr \<lparr>writtenByte = 0, capacity = cap, inMemory = m\<rparr>)"

text \<open>\<^verbatim>\<open>memcpy\<close> out of and into a block, \<open>n\<close> bytes at position \<open>pos\<close>; a negative count is
  a huge \<^verbatim>\<open>size_t\<close>.\<close>

definition copy_out :: "byte list \<Rightarrow> int \<Rightarrow> int \<Rightarrow> byte list result" where
  "copy_out mem pos n =
     (if pos < 0 \<or> n < 0 \<or> pos + n > int (length mem) then Inl OutOfBounds
      else Inr (segment (nat pos) (nat (pos + n)) mem))"

definition copy_in :: "byte list \<Rightarrow> int \<Rightarrow> int \<Rightarrow> byte list \<Rightarrow> byte list result" where
  "copy_in mem pos n src =
     (if pos < 0 \<or> n < 0 \<or> pos + n > int (length mem) \<or> n > int (length src) then Inl OutOfBounds
      else Inr (overwrite (nat pos) (take (nat n) src) mem))"

definition setData :: "packet \<Rightarrow> byte list \<Rightarrow> int \<Rightarrow> (int \<times> packet) result" where
  "setData p data len =
     (if len > capacity p then Inr (-1, p)
      else bindR (copy_in (inMemory p) 0 len data) (\<lambda>m.
        Inr (len, p\<lparr>writtenByte := len, inMemory := m\<rparr>)))"

definition bit_capacity :: "packet \<Rightarrow> int" where
  "bit_capacity p = sint (push_bit 3 (word_of_int (capacity p)) :: 32 word)"

definition readBit :: "packet \<Rightarrow> int \<Rightarrow> bool result" where
  "readBit p index =
     (if index < 0 \<or> index \<ge> bit_capacity p then Inl Exit
      else
        (let byteIdx = nat (index div 8); bitIdx = nat (index mod 8)
         in if byteIdx \<ge> length (inMemory p) then Inl OutOfBounds
            else
              (let target = inMemory p ! byteIdx; probe = push_bit (7 - bitIdx) 1
               in Inr (target AND probe > 0))))"

text \<open>\<open>readByteArray\<close> returns \<open>None\<close> when the guard leaves the caller's buffer untouched.\<close>

definition readByteArray :: "packet \<Rightarrow> int \<Rightarrow> int \<Rightarrow> byte list option result" where
  "readByteArray p from to =
     (if from < 0 \<or> to > writtenByte p then Inr None
      else mapR Some (copy_out (inMemory p) from (to - from)))"

definition writeByteArray :: "packet \<Rightarrow> int \<Rightarrow> int \<Rightarrow> byte list \<Rightarrow> packet result" where
  "writeByteArray p from to buffer =
     (if from < 0 \<or> to > writtenByte p then Inr p
      else mapR (\<lambda>m. p\<lparr>inMemory := m\<rparr>) (copy_in (inMemory p) from (to - from) buffer))"

definition readByte :: "packet \<Rightarrow> int \<Rightarrow> int result" where
  "readByte p index =
     (if index < 0 \<or> index \<ge> writtenByte p then Inr (-1)
      else if nat index \<ge> length (inMemory p) then Inl OutOfBounds
      else Inr (uint (inMemory p ! nat index)))"

definition writeByte :: "packet \<Rightarrow> int \<Rightarrow> byte \<Rightarrow> packet result" where
  "writeByte p index data =
     (if index < 0 \<or> index \<ge> writtenByte p then Inr p
      else if nat index \<ge> length (inMemory p) then Inl OutOfBounds
      else Inr (p\<lparr>inMemory := (inMemory p)[nat index := data]\<rparr>))"

definition setLength :: "packet \<Rightarrow> int \<Rightarrow> packet" where
  "setLength p len = p\<lparr>writtenByte := len\<rparr>"

definition getLength :: "packet \<Rightarrow> int" where
  "getLength p = writtenByte p"

definition getCapacity :: "packet \<Rightarrow> int" where
  "getCapacity p = capacity p"

text \<open>A read into a local variable that has not been initialised.\<close>

definition into_uninit :: "('a \<Rightarrow> 'b) \<Rightarrow> 'a option result \<Rightarrow> 'b result" where
  "into_uninit f m = bindR m (\<lambda>r. case r of None \<Rightarrow> Inl Uninitialised | Some x \<Rightarrow> Inr (f x))"

text \<open>A read into a local variable that holds \<open>d\<close>.\<close>

definition into_init :: "('a \<Rightarrow> 'b) \<Rightarrow> 'b \<Rightarrow> 'a option result \<Rightarrow> 'b result" where
  "into_init f d m = bindR m (\<lambda>r. case r of None \<Rightarrow> Inr d | Some x \<Rightarrow> Inr (f x))"

lemma mapR_into_init: "mapR g (into_init f d m) = into_init (\<lambda>x. g (f x)) (g d) m"
  by (cases m) (auto simp: into_init_def split: option.splits)

lemma mapR_into_uninit: "mapR g (into_uninit f m) = into_uninit (\<lambda>x. g (f x)) m"
  by (cases m) (auto simp: into_uninit_def split: option.splits)

section \<open>Well-formed packets\<close>

definition wf_packet :: "packet \<Rightarrow> bool" where
  "wf_packet p \<longleftrightarrow>
     0 \<le> writtenByte p \<and> writtenByte p \<le> capacity p \<and> int (length (inMemory p)) = capacity p"

text \<open>The frame a packet holds: the bytes that go out on the wire.\<close>

definition frame :: "packet \<Rightarrow> byte list" where
  "frame p = take (nat (writtenByte p)) (inMemory p)"

lemma wf_packet_new:
  "0 \<le> cap \<Longrightarrow> length m = nat cap \<Longrightarrow> Packet_new (Some m) cap = Inr p \<Longrightarrow>
   wf_packet p \<and> writtenByte p = 0 \<and> capacity p = cap"
  by (auto simp: Packet_new_def wf_packet_def)

lemma wf_setLength: "wf_packet p \<Longrightarrow> 0 \<le> n \<Longrightarrow> n \<le> capacity p \<Longrightarrow> wf_packet (setLength p n)"
  by (simp add: wf_packet_def setLength_def)

lemma writtenByte_setLength [simp]: "writtenByte (setLength p n) = n"
  and capacity_setLength [simp]: "capacity (setLength p n) = capacity p"
  and inMemory_setLength [simp]: "inMemory (setLength p n) = inMemory p"
  by (simp_all add: setLength_def)

lemma length_frame [simp]: "wf_packet p \<Longrightarrow> length (frame p) = nat (writtenByte p)"
  by (auto simp: wf_packet_def frame_def)

lemma segment_frame:
  "l \<le> nat (writtenByte p) \<Longrightarrow> segment k l (frame p) = segment k l (inMemory p)"
  by (cases "k \<le> l") (auto simp: segment_def frame_def drop_take min_def)

section \<open>Reads and writes of a well-formed packet\<close>

lemma readByteArray_outside [simp]:
  "from < 0 \<or> writtenByte p < to \<Longrightarrow> readByteArray p from to = Inr None"
  by (auto simp: readByteArray_def)

lemma writeByteArray_outside [simp]:
  "from < 0 \<or> writtenByte p < to \<Longrightarrow> writeByteArray p from to buf = Inr p"
  by (auto simp: writeByteArray_def)

lemma readByteArray_inside:
  assumes "wf_packet p" and "0 \<le> from" and "from \<le> to" and "to \<le> writtenByte p"
  shows "readByteArray p from to = Inr (Some (segment (nat from) (nat to) (inMemory p)))"
  using assms by (auto simp: readByteArray_def copy_out_def wf_packet_def)

lemma writeByteArray_inside:
  assumes "wf_packet p" and "0 \<le> from" and "to = from + int (length buf)" and "to \<le> writtenByte p"
  shows "writeByteArray p from to buf =
    Inr (p\<lparr>inMemory := overwrite (nat from) buf (inMemory p)\<rparr>)"
  using assms by (auto simp: writeByteArray_def copy_in_def wf_packet_def)

lemma readByte_inside:
  "wf_packet p \<Longrightarrow> 0 \<le> i \<Longrightarrow> i < writtenByte p \<Longrightarrow>
   readByte p i = Inr (uint (inMemory p ! nat i))"
  by (auto simp: readByte_def wf_packet_def)

lemma readByte_outside [simp]: "i < 0 \<or> writtenByte p \<le> i \<Longrightarrow> readByte p i = Inr (-1)"
  by (auto simp: readByte_def)

lemma writeByte_inside:
  "wf_packet p \<Longrightarrow> 0 \<le> i \<Longrightarrow> i < writtenByte p \<Longrightarrow>
   writeByte p i b = Inr (p\<lparr>inMemory := overwrite (nat i) [b] (inMemory p)\<rparr>)"
  by (auto simp: writeByte_def wf_packet_def overwrite_def upd_conv_take_nth_drop)

lemma writeByte_outside [simp]: "i < 0 \<or> writtenByte p \<le> i \<Longrightarrow> writeByte p i b = Inr p"
  by (auto simp: writeByte_def)

lemma segment_one: "i < length xs \<Longrightarrow> segment i (Suc i) xs = [xs ! i]"
  by (simp add: segment_def take_Suc_conv_app_nth)

lemma readByte_as_array:
  "readByte p i = bindR (readByteArray p i (i + 1))
     (\<lambda>r. case r of None \<Rightarrow> Inr (-1) | Some bs \<Rightarrow> Inr (uint (hd bs)))"
proof (cases "i < 0 \<or> writtenByte p \<le> i")
  case False
  then have "nat (i + 1) = Suc (nat i)" by auto
  with False show ?thesis
    by (auto simp: readByte_def readByteArray_def copy_out_def segment_one)
qed auto

lemma writeByte_as_array: "writeByte p i b = writeByteArray p i (i + 1) [b]"
  by (auto simp: writeByte_def writeByteArray_def copy_in_def overwrite_def upd_conv_take_nth_drop)

text \<open>Every write keeps the frame's length, the capacity and the well-formedness.\<close>

definition same_shape :: "packet \<Rightarrow> packet \<Rightarrow> bool" where
  "same_shape p q \<longleftrightarrow> writtenByte q = writtenByte p \<and> capacity q = capacity p \<and>
     length (inMemory q) = length (inMemory p)"

lemma same_shape_refl [simp]: "same_shape p p"
  by (simp add: same_shape_def)

lemma same_shape_trans: "same_shape p q \<Longrightarrow> same_shape q r \<Longrightarrow> same_shape p r"
  by (simp add: same_shape_def)

lemma same_shape_wf: "same_shape p q \<Longrightarrow> wf_packet p \<Longrightarrow> wf_packet q"
  by (simp add: same_shape_def wf_packet_def)

lemma writeByteArray_shape: "writeByteArray p from to buf = Inr q \<Longrightarrow> same_shape p q"
  by (auto simp: writeByteArray_def copy_in_def same_shape_def split: if_splits)

lemma writeByte_shape: "writeByte p i b = Inr q \<Longrightarrow> same_shape p q"
  by (auto simp: writeByte_def same_shape_def split: if_splits)

text \<open>A packet in which a block of bytes has been written at a position; consecutive writes
  extend the block.\<close>

definition written :: "packet \<Rightarrow> nat \<Rightarrow> byte list \<Rightarrow> packet" where
  "written p off w = p\<lparr>inMemory := overwrite off w (inMemory p)\<rparr>"

lemma written_fields [simp]:
  "writtenByte (written p off w) = writtenByte p" "capacity (written p off w) = capacity p"
  "inMemory (written p off w) = overwrite off w (inMemory p)"
  by (simp_all add: written_def)

lemma written_Nil [simp]: "written p off [] = p"
  by (simp add: written_def)

lemma wf_written:
  "wf_packet p \<Longrightarrow> int (off + length w) \<le> writtenByte p \<Longrightarrow> wf_packet (written p off w)"
  by (simp add: wf_packet_def)

lemma write_first:
  assumes "wf_packet p" and "from = int off" and "to = from + int (length bs)" and "to \<le> writtenByte p"
  shows "writeByteArray p from to bs = Inr (written p off bs)"
  using assms by (simp add: writeByteArray_inside written_def)

lemma write_next:
  assumes "wf_packet p" and "int (off + length w + length bs) \<le> writtenByte p"
    and "from = int (off + length w)" and "to = from + int (length bs)"
  shows "writeByteArray (written p off w) from to bs = Inr (written p off (w @ bs))"
  using assms by (subst write_first [where off = "off + length w"])
    (auto simp: wf_written written_def overwrite_adjacent wf_packet_def)

lemma write_next_byte:
  assumes "wf_packet p" and "int (off + length w) < writtenByte p" and "i = int (off + length w)"
  shows "writeByte (written p off w) i b = Inr (written p off (w @ [b]))"
  using assms write_next [OF assms(1), of off w "[b]" i "i + 1"] by (simp add: writeByte_as_array)

lemma write_before:
  assumes "wf_packet p" and "int (off + length bs + length w) \<le> writtenByte p"
    and "from = int off" and "to = from + int (length bs)"
  shows "writeByteArray (written p (off + length bs) w) from to bs = Inr (written p off (bs @ w))"
  using assms by (subst write_first [where off = off])
    (auto simp: wf_written written_def overwrite_before wf_packet_def)

lemma write_within:
  assumes "wf_packet p" and "int (off + length w) \<le> writtenByte p" and "j + length bs \<le> length w"
    and "from = int (off + j)" and "to = from + int (length bs)"
  shows "writeByteArray (written p off w) from to bs = Inr (written p off (overwrite j bs w))"
  using assms by (subst write_first [where off = "off + j"])
    (auto simp: wf_written written_def overwrite_within wf_packet_def)

lemma segment_written:
  assumes "wf_packet p" and "int (off + length w) \<le> writtenByte p" and "l \<le> length w"
  shows "segment (off + k) (off + l) (inMemory (written p off w)) = segment k l w"
  using assms by (simp add: segment_overwrite_within wf_packet_def)

section \<open>The operations on the frame\<close>

lemma bit_capacity_exact:
  assumes "0 \<le> capacity p" and "capacity p < 2 ^ 28"
  shows "bit_capacity p = 8 * capacity p"
proof -
  have "push_bit 3 (word_of_int (capacity p)) = (word_of_int (8 * capacity p) :: 32 word)"
    by (simp add: push_bit_eq_mult)
  moreover have "sint (word_of_int (8 * capacity p) :: 32 word) = 8 * capacity p"
    unfolding sint_sbintrunc' by (rule signed_take_bit_int_eq_self) (use assms in simp_all)
  ultimately show ?thesis by (simp add: bit_capacity_def)
qed

lemma readBit_bit:
  assumes "wf_packet p" and "capacity p < 2 ^ 28"
  shows "readBit p i = (if 0 \<le> i \<and> i < 8 * capacity p
    then Inr (bit (inMemory p ! nat (i div 8)) (7 - nat (i mod 8))) else Inl Exit)"
proof (cases "0 \<le> i \<and> i < 8 * capacity p")
  case True
  let ?b = "inMemory p ! nat (i div 8)" and ?k = "7 - nat (i mod 8)"
  have "nat (i div 8) < length (inMemory p)" using assms True by (auto simp: wf_packet_def)
  moreover have "(?b AND push_bit ?k 1 > 0) = bit ?b ?k"
  proof -
    have "?b AND push_bit ?k 1 = (if bit ?b ?k then push_bit ?k 1 else 0)"
      by (rule bit_eqI) (auto simp: bit_simps)
    moreover have "push_bit ?k 1 \<noteq> (0 :: byte)" by (simp add: push_bit_eq_mult)
    ultimately show ?thesis by (auto simp: word_gt_0)
  qed
  ultimately show ?thesis using True assms by (simp add: readBit_def Let_def bit_capacity_exact wf_packet_def)
next
  case False
  then show ?thesis using assms by (auto simp: readBit_def bit_capacity_exact wf_packet_def)
qed

lemma overwrite_in_take:
  assumes "i + length ys \<le> n" and "n \<le> length xs"
  shows "take n (overwrite i ys xs) = overwrite i ys (take n xs)"
  using assms by (simp add: overwrite_def take_drop min.absorb1)

lemma frame_writeByteArray:
  assumes "wf_packet p"
  shows "if 0 \<le> from \<and> to \<le> writtenByte p \<and> (to < from \<or> int (length buf) < to - from)
    then writeByteArray p from to buf = Inl OutOfBounds
    else \<exists>q. writeByteArray p from to buf = Inr q \<and> wf_packet q \<and> capacity q = capacity p \<and>
      frame q = (if 0 \<le> from \<and> to \<le> writtenByte p
                 then overwrite (nat from) (take (nat (to - from)) buf) (frame p) else frame p)"
proof (cases "0 \<le> from \<and> to \<le> writtenByte p")
  case inside: True
  show ?thesis
  proof (cases "to < from \<or> int (length buf) < to - from")
    case True
    with inside show ?thesis by (auto simp: writeByteArray_def copy_in_def)
  next
    case False
    let ?bs = "take (nat (to - from)) buf"
    have q: "writeByteArray p from to buf = Inr (p\<lparr>inMemory := overwrite (nat from) ?bs (inMemory p)\<rparr>)"
      using inside False assms by (auto simp: writeByteArray_def copy_in_def wf_packet_def)
    have "nat from + length ?bs \<le> nat (writtenByte p)" "nat (writtenByte p) \<le> length (inMemory p)"
      using inside False assms by (auto simp: wf_packet_def)
    then have "take (nat (writtenByte p)) (overwrite (nat from) ?bs (inMemory p)) = overwrite (nat from) ?bs (frame p)"
      unfolding frame_def by (rule overwrite_in_take)
    then show ?thesis
      using inside False same_shape_wf [OF writeByteArray_shape [OF q] assms] by (simp add: q frame_def)
  qed
next
  case False
  with assms show ?thesis by (auto simp: writeByteArray_outside)
qed

lemma frame_setData:
  assumes "wf_packet p" and "0 \<le> len" and "len \<le> int (length data)" and "len \<le> capacity p"
  shows "\<exists>q. setData p data len = Inr (len, q) \<and> wf_packet q \<and> capacity q = capacity p \<and> frame q = take (nat len) data"
  using assms by (auto simp: setData_def copy_in_def wf_packet_def frame_def overwrite_def)

text \<open>
  C16: On a well-formed packet the operations act on the frame as on a byte array, for all arguments, and go wrong
  exactly where stated. A byte read gives the byte, or -1 outside the frame; a bit read gives the bit, counted
  from the most significant one, and ends the process outside the buffer (for buffers below \<open>2 ^ 28\<close> bytes, where
  the shift does not overflow); an array read gives that part of the frame, or leaves the caller's
  buffer alone; a write replaces exactly the bytes it is asked to, or nothing; \<^verbatim>\<open>setData\<close> makes the data
  the frame, or returns -1 when it does not fit. The result is well formed again, with the same capacity. The
  only accesses out of bounds are those the caller asks for with a negative count or with a source
  shorter than the count: the guards check the two ends of the range, not their order.
\<close>

theorem packet_operations_safe:
  assumes "wf_packet p" and "capacity p < 2 ^ 28"
  shows "readByte p i = Inr (if 0 \<le> i \<and> i < writtenByte p then uint (frame p ! nat i) else -1) \<and>
    readBit p i = (if 0 \<le> i \<and> i < 8 * capacity p
      then Inr (bit (inMemory p ! nat (i div 8)) (7 - nat (i mod 8))) else Inl Exit) \<and>
    readByteArray p from to =
      (if from < 0 \<or> writtenByte p < to then Inr None
       else if to < from then Inl OutOfBounds else Inr (Some (segment (nat from) (nat to) (frame p)))) \<and>
    (\<exists>q. writeByte p i b = Inr q \<and> wf_packet q \<and> capacity q = capacity p \<and>
       frame q = (if 0 \<le> i \<and> i < writtenByte p then overwrite (nat i) [b] (frame p) else frame p)) \<and>
    (if 0 \<le> from \<and> to \<le> writtenByte p \<and> (to < from \<or> int (length buf) < to - from)
     then writeByteArray p from to buf = Inl OutOfBounds
     else \<exists>q. writeByteArray p from to buf = Inr q \<and> wf_packet q \<and> capacity q = capacity p \<and>
       frame q = (if 0 \<le> from \<and> to \<le> writtenByte p
                  then overwrite (nat from) (take (nat (to - from)) buf) (frame p) else frame p)) \<and>
    (if len > capacity p then setData p buf len = Inr (-1, p)
     else if len < 0 \<or> int (length buf) < len then setData p buf len = Inl OutOfBounds
     else \<exists>q. setData p buf len = Inr (len, q) \<and> wf_packet q \<and> capacity q = capacity p \<and> frame q = take (nat len) buf)"
proof (intro conjI)
  show "readByte p i = Inr (if 0 \<le> i \<and> i < writtenByte p then uint (frame p ! nat i) else -1)"
    using readByte_inside [OF assms(1), of i] by (auto simp: frame_def)
  show "readByteArray p from to =
      (if from < 0 \<or> writtenByte p < to then Inr None
       else if to < from then Inl OutOfBounds else Inr (Some (segment (nat from) (nat to) (frame p))))"
    using readByteArray_inside [OF assms(1), of "from" to]
    by (auto simp: segment_frame readByteArray_def copy_out_def)
  show "\<exists>q. writeByte p i b = Inr q \<and> wf_packet q \<and> capacity q = capacity p \<and>
       frame q = (if 0 \<le> i \<and> i < writtenByte p then overwrite (nat i) [b] (frame p) else frame p)"
    using frame_writeByteArray [OF assms(1), of i "i + 1" "[b]"]
    by (cases "0 \<le> i"; cases "i < writtenByte p") (simp_all add: writeByte_as_array)
  show "if len > capacity p then setData p buf len = Inr (-1, p)
     else if len < 0 \<or> int (length buf) < len then setData p buf len = Inl OutOfBounds
     else \<exists>q. setData p buf len = Inr (len, q) \<and> wf_packet q \<and> capacity q = capacity p \<and> frame q = take (nat len) buf"
    using frame_setData [OF assms(1), of len buf] by (auto simp: setData_def copy_in_def)
qed (rule readBit_bit [OF assms], rule frame_writeByteArray [OF assms(1)])

theorem packet_operations_safe_witness:
  "(\<exists>q. writeByteArray \<lparr>writtenByte = 3, capacity = 4, inMemory = [1, 2, 3, 4]\<rparr> 1 3 [8, 9] = Inr q \<and> frame q = [1, 8, 9]) \<and>
   readBit \<lparr>writtenByte = 3, capacity = 4, inMemory = [1, 2, 3, 4]\<rparr> 32 = Inl Exit"
  using packet_operations_safe [of "\<lparr>writtenByte = 3, capacity = 4, inMemory = [1, 2, 3, 4]\<rparr>" 32 1 3 0 "[8, 9]"]
  by (auto simp: wf_packet_def frame_def overwrite_def eval_nat_numeral)

section \<open>Header fields\<close>

text \<open>
  A header class is a packet and an offset; a field is a getter and a setter over the bytes
  \<open>[offset + lo, offset + hi)\<close>. \<open>dflt\<close> is what the getter gives when the frame is too short.
\<close>

locale packet_field =
  fixes getf :: "packet \<Rightarrow> int \<Rightarrow> 'v result"
    and setf :: "packet \<Rightarrow> int \<Rightarrow> 'v \<Rightarrow> packet result"
    and lo :: int
    and hi :: int
    and enc :: "'v \<Rightarrow> byte list"
    and dec :: "byte list \<Rightarrow> 'v"
    and dflt :: "'v result"
  assumes field_range: "0 \<le> lo \<and> lo \<le> hi"
    and enc_length: "int (length (enc v)) = hi - lo"
    and dec_enc: "dec (enc v) = v"
    and enc_dec: "int (length bs) = hi - lo \<Longrightarrow> enc (dec bs) = bs"
    and get_reads: "getf p off =
      bindR (readByteArray p (off + lo) (off + hi)) (\<lambda>r. case r of None \<Rightarrow> dflt | Some bs \<Rightarrow> Inr (dec bs))"
    and set_writes: "setf p off v = writeByteArray p (off + lo) (off + hi) (enc v)"
begin

lemma get_inside:
  assumes "wf_packet p" and "0 \<le> off" and "off + hi \<le> writtenByte p"
  shows "getf p off = Inr (dec (segment (nat (off + lo)) (nat (off + hi)) (inMemory p)))"
  using assms field_range by (simp add: get_reads readByteArray_inside)

lemma get_outside: "writtenByte p < off + hi \<Longrightarrow> getf p off = dflt"
  by (simp add: get_reads)

lemma set_inside:
  assumes "wf_packet p" and "0 \<le> off" and "off + hi \<le> writtenByte p"
  shows "setf p off v = Inr (p\<lparr>inMemory := overwrite (nat (off + lo)) (enc v) (inMemory p)\<rparr>)"
  using assms field_range enc_length [of v] by (simp add: set_writes writeByteArray_inside)

lemma set_outside: "writtenByte p < off + hi \<Longrightarrow> setf p off v = Inr p"
  by (simp add: set_writes)

lemma set_total:
  assumes "wf_packet p" and "0 \<le> off"
  shows "\<exists>q. setf p off v = Inr q \<and> same_shape p q"
proof (cases "off + hi \<le> writtenByte p")
  case True
  with assms have "setf p off v = Inr (p\<lparr>inMemory := overwrite (nat (off + lo)) (enc v) (inMemory p)\<rparr>)"
    by (rule set_inside)
  then show ?thesis by (auto dest: writeByteArray_shape simp: set_writes)
qed (simp add: set_outside)

lemma set_shape: "setf p off v = Inr q \<Longrightarrow> same_shape p q"
  by (simp add: set_writes writeByteArray_shape)

lemma field_fits:
  assumes "wf_packet p" and "0 \<le> off" and "off + hi \<le> writtenByte p"
  shows "nat (off + hi) \<le> length (inMemory p)"
  using assms field_range by (auto simp: wf_packet_def)

lemma enc_end: "0 \<le> off \<Longrightarrow> nat (off + lo) + length (enc v) = nat (off + hi)"
  using field_range enc_length [of v] by auto

lemma get_after_set:
  assumes "wf_packet p" and "0 \<le> off" and "off + hi \<le> writtenByte p" and "setf p off v = Inr q"
  shows "getf q off = Inr v"
proof -
  have q: "q = p\<lparr>inMemory := overwrite (nat (off + lo)) (enc v) (inMemory p)\<rparr>"
    using assms set_inside by simp
  have "wf_packet q" using assms set_shape same_shape_wf by blast
  with assms have "getf q off = Inr (dec (segment (nat (off + lo)) (nat (off + hi)) (inMemory q)))"
    by (intro get_inside) (auto simp: q)
  moreover have "segment (nat (off + lo)) (nat (off + hi)) (inMemory q) = enc v"
    using field_fits [OF assms(1-3)] segment_overwrite_same [of "nat (off + lo)" "enc v" "inMemory p"]
    by (simp add: q enc_end [OF assms(2)])
  ultimately show ?thesis by (simp add: dec_enc)
qed

lemma set_after_get:
  assumes "wf_packet p" and "0 \<le> off" and "off + hi \<le> writtenByte p" and "getf p off = Inr v"
  shows "setf p off v = Inr p"
proof -
  let ?s = "segment (nat (off + lo)) (nat (off + hi)) (inMemory p)"
  have v: "v = dec ?s" using assms get_inside by simp
  have len: "int (length ?s) = hi - lo"
    using assms field_range by (auto simp: wf_packet_def)
  have "overwrite (nat (off + lo)) ?s (inMemory p) = inMemory p"
    using assms field_range by (intro overwrite_segment_id) (auto simp: wf_packet_def)
  then show ?thesis
    using assms v set_inside [OF assms(1-3), of v] by (simp add: enc_dec [OF len])
qed

lemma set_frame:
  assumes "wf_packet p" and "0 \<le> off" and "setf p off v = Inr q"
    and "int l \<le> writtenByte p" and "int l \<le> off + lo \<or> off + hi \<le> int k"
  shows "segment k l (inMemory q) = segment k l (inMemory p)"
proof (cases "off + hi \<le> writtenByte p")
  case True
  note fits = field_fits [OF assms(1,2) True] enc_end [OF assms(2), of v]
  have q: "q = p\<lparr>inMemory := overwrite (nat (off + lo)) (enc v) (inMemory p)\<rparr>"
    using assms set_inside [OF assms(1,2) True] by simp
  show ?thesis
    using assms fits field_range
    by (auto simp: q wf_packet_def intro!: segment_overwrite_disjoint)
qed (use assms in \<open>simp add: set_outside\<close>)

end

end
