(* ===== verification/ARP.thy ===== *)
theory ARP
  imports Packet
begin

text \<open>
  The class of \<^verbatim>\<open>arp.cpp\<close>: the fixed ARP header in host byte order and the four address
  fields of an Ethernet/IPv4 ARP body.
\<close>

record arphdr =
  ar_hrd :: u16
  ar_pro :: u16
  ar_hln :: byte
  ar_pln :: byte
  ar_op :: u16

definition arphdr_bytes :: "arphdr \<Rightarrow> byte list" where
  "arphdr_bytes h = bytes16 (ar_hrd h) @ bytes16 (ar_pro h) @ [ar_hln h, ar_pln h] @ bytes16 (ar_op h)"

definition arphdr_of :: "byte list \<Rightarrow> arphdr" where
  "arphdr_of bs = \<lparr>ar_hrd = le16 (take 2 bs), ar_pro = le16 (take 2 (drop 2 bs)),
     ar_hln = bs ! 4, ar_pln = bs ! 5, ar_op = le16 (drop 6 bs)\<rparr>"

definition ARP_new :: int where
  "ARP_new = 0"

definition ARP_at :: "int \<Rightarrow> int" where
  "ARP_at offset = offset"

definition ARP_setHeader :: "packet \<Rightarrow> int \<Rightarrow> arphdr \<Rightarrow> packet result" where
  "ARP_setHeader p offset header =
     (let header = header\<lparr>ar_hrd := htons (ar_hrd header)\<rparr>;
          header = header\<lparr>ar_pro := htons (ar_pro header)\<rparr>;
          header = header\<lparr>ar_op := htons (ar_op header)\<rparr>
      in writeByteArray p offset (offset + sizeof_arphdr) (arphdr_bytes header))"

definition ARP_getHeader :: "packet \<Rightarrow> int \<Rightarrow> arphdr result" where
  "ARP_getHeader p offset =
     mapR (\<lambda>header.
        let header = header\<lparr>ar_hrd := ntohs (ar_hrd header)\<rparr>;
            header = header\<lparr>ar_pro := ntohs (ar_pro header)\<rparr>
        in header\<lparr>ar_op := ntohs (ar_op header)\<rparr>)
       (into_init arphdr_of \<lparr>ar_hrd = 0, ar_pro = 0, ar_hln = 0, ar_pln = 0, ar_op = 0\<rparr>
         (readByteArray p offset (offset + sizeof_arphdr)))"

definition ARP_getSourceMAC :: "packet \<Rightarrow> int \<Rightarrow> ether_addr result" where
  "ARP_getSourceMAC p offset =
     (let from = offset + sizeof_arphdr; len = sizeof_ether_addr
      in into_uninit ether_of (readByteArray p from (from + len)))"

definition ARP_getDestinationMAC :: "packet \<Rightarrow> int \<Rightarrow> ether_addr result" where
  "ARP_getDestinationMAC p offset =
     (let from = offset + sizeof_arphdr + sizeof_in_addr + sizeof_ether_addr; len = sizeof_ether_addr
      in into_uninit ether_of (readByteArray p from (from + len)))"

definition ARP_setSourceMAC :: "packet \<Rightarrow> int \<Rightarrow> ether_addr \<Rightarrow> packet result" where
  "ARP_setSourceMAC p offset sourceMAC =
     (let from = offset + sizeof_arphdr; len = sizeof_ether_addr
      in writeByteArray p from (from + len) (octets sourceMAC))"

definition ARP_setDestinationMAC :: "packet \<Rightarrow> int \<Rightarrow> ether_addr \<Rightarrow> packet result" where
  "ARP_setDestinationMAC p offset destinationMAC =
     (let from = offset + sizeof_arphdr + sizeof_in_addr + sizeof_ether_addr; len = sizeof_ether_addr
      in writeByteArray p from (from + len) (octets destinationMAC))"

definition ARP_getSourceIP :: "packet \<Rightarrow> int \<Rightarrow> in_addr result" where
  "ARP_getSourceIP p offset =
     (let from = offset + sizeof_arphdr + sizeof_ether_addr; len = sizeof_in_addr
      in into_uninit in_addr_of (readByteArray p from (from + len)))"

definition ARP_getDestinationIP :: "packet \<Rightarrow> int \<Rightarrow> in_addr result" where
  "ARP_getDestinationIP p offset =
     (let from = offset + sizeof_arphdr + sizeof_in_addr + sizeof_ether_addr + sizeof_ether_addr;
          len = sizeof_in_addr
      in into_uninit in_addr_of (readByteArray p from (from + len)))"

definition ARP_setSourceIP :: "packet \<Rightarrow> int \<Rightarrow> in_addr \<Rightarrow> packet result" where
  "ARP_setSourceIP p offset ip =
     (let from = offset + sizeof_arphdr + sizeof_ether_addr; len = sizeof_in_addr
      in writeByteArray p from (from + len) (in_addr_bytes ip))"

definition ARP_setDestinationIP :: "packet \<Rightarrow> int \<Rightarrow> in_addr \<Rightarrow> packet result" where
  "ARP_setDestinationIP p offset ip =
     (let from = offset + sizeof_arphdr + sizeof_in_addr + sizeof_ether_addr + sizeof_ether_addr;
          len = sizeof_in_addr
      in writeByteArray p from (from + len) (in_addr_bytes ip))"

section \<open>The fields satisfy the field interface\<close>

lemmas ARP_defs =
  ARP_getSourceMAC_def ARP_setSourceMAC_def ARP_getDestinationMAC_def ARP_setDestinationMAC_def
  ARP_getSourceIP_def ARP_setSourceIP_def ARP_getDestinationIP_def ARP_setDestinationIP_def

lemma ARP_offsets [simp]: "ARP_new = 0" "ARP_at off = off"
  by (simp_all add: ARP_new_def ARP_at_def)

interpretation arp_src_mac: packet_field ARP_getSourceMAC ARP_setSourceMAC 8 14 octets ether_of
  "Inl Uninitialised"
  by unfold_locales
    (auto simp: ARP_defs into_uninit_def octets_ether_of sizes Let_def add.commute)

interpretation arp_src_ip: packet_field ARP_getSourceIP ARP_setSourceIP 14 18 in_addr_bytes
  in_addr_of "Inl Uninitialised"
  by unfold_locales
    (auto simp: ARP_defs into_uninit_def in_addr_bytes_of sizes Let_def add.commute)

interpretation arp_dst_mac: packet_field ARP_getDestinationMAC ARP_setDestinationMAC 18 24 octets
  ether_of "Inl Uninitialised"
  by unfold_locales
    (auto simp: ARP_defs into_uninit_def octets_ether_of sizes Let_def add.commute)

interpretation arp_dst_ip: packet_field ARP_getDestinationIP ARP_setDestinationIP 24 28
  in_addr_bytes in_addr_of "Inl Uninitialised"
  by unfold_locales
    (auto simp: ARP_defs into_uninit_def in_addr_bytes_of sizes Let_def add.commute)

text \<open>The header as one field: its encoding is the struct in network byte order.\<close>

definition arphdr_swap :: "arphdr \<Rightarrow> arphdr" where
  "arphdr_swap h = h\<lparr>ar_hrd := htons (ar_hrd h), ar_pro := htons (ar_pro h), ar_op := htons (ar_op h)\<rparr>"

definition arphdr_zero :: arphdr where
  "arphdr_zero = \<lparr>ar_hrd = 0, ar_pro = 0, ar_hln = 0, ar_pln = 0, ar_op = 0\<rparr>"

lemma arphdr_swap_swap [simp]: "arphdr_swap (arphdr_swap h) = h"
  by (simp add: arphdr_swap_def)

lemma arphdr_of_bytes [simp]: "arphdr_of (arphdr_bytes h) = h"
  by (simp add: arphdr_of_def arphdr_bytes_def nth_append)

lemma arphdr_bytes_of: "length bs = 8 \<Longrightarrow> arphdr_bytes (arphdr_of bs) = bs"
  by (auto simp: arphdr_of_def arphdr_bytes_def length_Suc_conv numeral_eq_Suc simp del: le16.simps)

lemma length_arphdr_bytes [simp]: "length (arphdr_bytes h) = 8"
  by (simp add: arphdr_bytes_def)

lemma ARP_getHeader_reads:
  "ARP_getHeader p off =
     into_init (\<lambda>bs. arphdr_swap (arphdr_of bs)) arphdr_zero (readByteArray p off (off + 8))"
  by (simp add: ARP_getHeader_def mapR_into_init arphdr_swap_def arphdr_zero_def ntohs_eq_htons sizes
      Let_def) (simp add: htons_def)

interpretation arp_header: packet_field ARP_getHeader ARP_setHeader 0 8
  "\<lambda>h. arphdr_bytes (arphdr_swap h)" "\<lambda>bs. arphdr_swap (arphdr_of bs)" "Inr arphdr_zero"
  by unfold_locales
    (auto simp: ARP_getHeader_reads into_init_def ARP_setHeader_def arphdr_swap_def [symmetric]
      arphdr_bytes_of sizes Let_def)

lemmas ARP_wire [wire] =
  arp_src_mac.get_inside arp_src_mac.set_inside arp_src_ip.get_inside arp_src_ip.set_inside
  arp_dst_mac.get_inside arp_dst_mac.set_inside arp_dst_ip.get_inside arp_dst_ip.set_inside
  arp_header.get_inside arp_header.set_inside

end
