(* ===== verification/DHCP.thy ===== *)
theory DHCP
  imports Packet
begin

text \<open>
  The class of \<^verbatim>\<open>dhcp.cpp\<close>: the fields the gateway reads of a client's message, and
  \<^verbatim>\<open>writeResponse\<close>, which writes an OFFER or an ACK. The lemmas give the response byte for
  byte, including the four bytes it leaves as they were.
\<close>

section \<open>Reading a request\<close>

definition DHCP_new :: int where
  "DHCP_new = 0"

definition DHCP_at :: "int \<Rightarrow> int" where
  "DHCP_at offset = offset"

text \<open>The opcode is the byte narrowed to \<^verbatim>\<open>char\<close>, here its eight bits.\<close>

definition DHCP_getOpcode :: "packet \<Rightarrow> int \<Rightarrow> byte result" where
  "DHCP_getOpcode p offset = mapR word_of_int (readByte p offset)"

definition DHCP_getTransactionID :: "packet \<Rightarrow> int \<Rightarrow> u32 result" where
  "DHCP_getTransactionID p offset = into_uninit le32 (readByteArray p (offset + 4) (offset + 8))"

definition DHCP_getClientMAC :: "packet \<Rightarrow> int \<Rightarrow> ether_addr result" where
  "DHCP_getClientMAC p offset = into_uninit ether_of (readByteArray p (offset + 28) (offset + 34))"

definition DHCP_getMessageType :: "packet \<Rightarrow> int \<Rightarrow> int result" where
  "DHCP_getMessageType p offset = readByte p (offset + 242)"

section \<open>Writing a response\<close>

text \<open>The statement patterns of \<^verbatim>\<open>writeResponse\<close> on the packet and \<^verbatim>\<open>current_offset\<close>:
  \<^verbatim>\<open>writeByte(current_offset++, b)\<close>; a \<^verbatim>\<open>writeByteArray\<close> followed by the increment; a loop that
  clears \<open>n\<close> bytes followed by an increment by \<open>adv\<close>.\<close>

definition put_byte :: "byte \<Rightarrow> packet \<times> int \<Rightarrow> (packet \<times> int) result" where
  "put_byte b s = (case s of (p, cur) \<Rightarrow> mapR (\<lambda>p. (p, cur + 1)) (writeByte p cur b))"

definition put_array :: "byte list \<Rightarrow> packet \<times> int \<Rightarrow> (packet \<times> int) result" where
  "put_array bs s = (case s of (p, cur) \<Rightarrow>
     mapR (\<lambda>p. (p, cur + int (length bs))) (writeByteArray p cur (cur + int (length bs)) bs))"

fun clear_bytes :: "packet \<Rightarrow> int \<Rightarrow> nat \<Rightarrow> packet result" where
  "clear_bytes p i 0 = Inr p"
| "clear_bytes p i (Suc n) = bindR (writeByte p i 0) (\<lambda>p. clear_bytes p (i + 1) n)"

definition put_zeros :: "nat \<Rightarrow> int \<Rightarrow> packet \<times> int \<Rightarrow> (packet \<times> int) result" where
  "put_zeros n adv s = (case s of (p, cur) \<Rightarrow> mapR (\<lambda>p. (p, cur + adv)) (clear_bytes p cur n))"

fun put_dns :: "in_addr list \<Rightarrow> packet \<times> int \<Rightarrow> (packet \<times> int) result" where
  "put_dns [] s = Inr s"
| "put_dns (dns # ds) s = bindR (put_array (in_addr_bytes dns) s) (put_dns ds)"

definition writeResponse ::
  "packet \<Rightarrow> int \<Rightarrow> bool \<Rightarrow> u16 \<Rightarrow> u32 \<Rightarrow> in_addr \<Rightarrow> ether_addr \<Rightarrow> in_addr \<Rightarrow> in_addr \<Rightarrow> in_addr
     \<Rightarrow> in_addr list \<Rightarrow> u32 \<Rightarrow> (int \<times> packet) result" where
  "writeResponse packet offset discover MTU transaction_id client_in_addr client_ether_addr
     server_identifier subnet_mask router dns_vector lease_time =
     bindR (put_byte 2 (packet, offset)) (\<lambda>s.
     bindR (put_byte 1 s) (\<lambda>s.
     bindR (put_byte 6 s) (\<lambda>s.
     bindR (put_byte 0 s) (\<lambda>s.
     bindR (put_array (bytes32 transaction_id) s) (\<lambda>s.
     bindR (put_zeros 8 8 s) (\<lambda>s.
     bindR (put_array (in_addr_bytes client_in_addr) s) (\<lambda>s.
     bindR (put_zeros 4 8 s) (\<lambda>s.
     bindR (put_array (octets client_ether_addr) s) (\<lambda>s.
     bindR (put_zeros 10 10 s) (\<lambda>s.
     bindR (put_zeros (64 + 128) (64 + 128) s) (\<lambda>s.
     bindR (put_byte 99 s) (\<lambda>s.
     bindR (put_byte 130 s) (\<lambda>s.
     bindR (put_byte 83 s) (\<lambda>s.
     bindR (put_byte 99 s) (\<lambda>s.
     bindR (put_byte 53 s) (\<lambda>s.
     bindR (put_byte 1 s) (\<lambda>s.
     bindR (if discover then put_byte 2 s else put_byte 5 s) (\<lambda>s.
     bindR (put_byte 54 s) (\<lambda>s.
     bindR (put_byte 4 s) (\<lambda>s.
     bindR (put_array (in_addr_bytes server_identifier) s) (\<lambda>s.
     bindR (put_byte 51 s) (\<lambda>s.
     bindR (put_byte 4 s) (\<lambda>s.
     bindR (put_array (bytes32 lease_time) s) (\<lambda>s.
     bindR (put_byte 1 s) (\<lambda>s.
     bindR (put_byte 4 s) (\<lambda>s.
     bindR (put_array (in_addr_bytes subnet_mask) s) (\<lambda>s.
     bindR (put_byte 3 s) (\<lambda>s.
     bindR (put_byte 4 s) (\<lambda>s.
     bindR (put_array (in_addr_bytes router) s) (\<lambda>s.
     bindR (put_byte 26 s) (\<lambda>s.
     bindR (put_byte 2 s) (\<lambda>s.
     bindR (put_array (bytes16 MTU) s) (\<lambda>s.
     bindR (put_byte 6 s) (\<lambda>s.
     bindR (put_byte (of_nat (length dns_vector * 4)) s) (\<lambda>s.
     bindR (put_dns dns_vector s) (\<lambda>s.
     bindR (put_byte 255 s) (\<lambda>(packet, current_offset).
       Inr (current_offset - offset, packet))))))))))))))))))))))))))))))))))))))"

section \<open>The statements on a written prefix\<close>

text \<open>\<open>at p off w\<close>: the block \<open>w\<close> has been written from \<open>off\<close> on and \<^verbatim>\<open>current_offset\<close> is behind it.\<close>

definition at :: "packet \<Rightarrow> nat \<Rightarrow> byte list \<Rightarrow> packet \<times> int" where
  "at p off w = (written p off w, int (off + length w))"

lemma put_byte_at:
  assumes "wf_packet p" and "int (off + length w) < writtenByte p"
  shows "put_byte b (at p off w) = Inr (at p off (w @ [b]))"
  using assms by (simp add: put_byte_def at_def write_next_byte)

lemma put_array_at:
  assumes "wf_packet p" and "int (off + length w + length bs) \<le> writtenByte p"
  shows "put_array bs (at p off w) = Inr (at p off (w @ bs))"
  using assms write_next [OF assms, of "int (off + length w)" "int (off + length w) + int (length bs)"]
  by (simp add: put_array_def at_def)

lemma clear_bytes_written:
  assumes "wf_packet p" and "int (off + length w + n) \<le> writtenByte p" and "i = int (off + length w)"
  shows "clear_bytes (written p off w) i n = Inr (written p off (w @ replicate n 0))"
  using assms
proof (induction n arbitrary: w i)
  case (Suc n)
  have "writeByte (written p off w) i 0 = Inr (written p off (w @ [0]))"
    using Suc.prems by (intro write_next_byte) auto
  moreover have "clear_bytes (written p off (w @ [0])) (i + 1) n =
      Inr (written p off ((w @ [0]) @ replicate n 0))"
    using Suc.prems by (intro Suc.IH) auto
  ultimately show ?case by (simp add: replicate_app_Cons_same)
qed simp

lemma put_zeros_at:
  assumes "wf_packet p" and "int (off + length w + n) \<le> writtenByte p"
  shows "put_zeros n (int n) (at p off w) = Inr (at p off (w @ replicate n 0))"
  using assms by (simp add: put_zeros_def at_def clear_bytes_written)

text \<open>A loop that clears fewer bytes than it skips keeps the bytes in between.\<close>

lemma written_keep:
  assumes "wf_packet p" and "int (off + length w + k) \<le> writtenByte p"
  shows "written p off w =
    written p off (w @ segment (off + length w) (off + length w + k) (inMemory p))"
proof -
  have "overwrite off w (inMemory p) =
    overwrite off (w @ segment (off + length w) (off + length w + k) (inMemory p)) (inMemory p)"
    using assms by (intro nth_equalityI)
      (auto simp: wf_packet_def nth_overwrite nth_append intro!: arg_cong [where f = "(!) _"])
  then show ?thesis by (simp add: written_def)
qed

lemma put_zeros_gap_at:
  assumes "wf_packet p" and "int (off + length w + n + k) \<le> writtenByte p"
  shows "put_zeros n (int (n + k)) (at p off w) =
    Inr (at p off (w @ replicate n 0 @
      segment (off + length w + n) (off + length w + n + k) (inMemory p)))"
proof -
  have "min k (length (inMemory p) - (off + (length w + n))) = k"
    using assms by (auto simp: wf_packet_def)
  with assms show ?thesis
    using written_keep [of p off "w @ replicate n 0" k]
    by (simp add: put_zeros_def at_def clear_bytes_written add.assoc)
qed

lemma put_dns_at:
  assumes "wf_packet p" and "int (off + length w + 4 * length ds) \<le> writtenByte p"
  shows "put_dns ds (at p off w) = Inr (at p off (w @ concat (map in_addr_bytes ds)))"
  using assms
proof (induction ds arbitrary: w)
  case (Cons d ds)
  have "put_array (in_addr_bytes d) (at p off w) = Inr (at p off (w @ in_addr_bytes d))"
    using Cons.prems by (intro put_array_at) auto
  with Cons.IH [of "w @ in_addr_bytes d"] Cons.prems show ?case by simp
qed simp

section \<open>The response\<close>

text \<open>The message as the code writes it. \<open>gap\<close> stands for the four bytes of the relay agent's
  address, which \<^verbatim>\<open>writeResponse\<close> skips without writing.\<close>

definition dhcp_options ::
  "bool \<Rightarrow> u16 \<Rightarrow> in_addr \<Rightarrow> in_addr \<Rightarrow> in_addr \<Rightarrow> in_addr list \<Rightarrow> u32 \<Rightarrow> byte list" where
  "dhcp_options discover mtu server subnet router dns lease =
     [53, 1, if discover then 2 else 5] @ [54, 4] @ in_addr_bytes server @ [51, 4] @ bytes32 lease @
     [1, 4] @ in_addr_bytes subnet @ [3, 4] @ in_addr_bytes router @ [26, 2] @ bytes16 mtu @
     [6, of_nat (length dns * 4)] @ concat (map in_addr_bytes dns) @ [255]"

definition dhcp_response ::
  "byte list \<Rightarrow> u32 \<Rightarrow> in_addr \<Rightarrow> ether_addr \<Rightarrow> byte list \<Rightarrow> byte list" where
  "dhcp_response gap xid client mac opts =
     [2, 1, 6, 0] @ bytes32 xid @ replicate 8 0 @ in_addr_bytes client @ replicate 4 0 @ gap @
     octets mac @ replicate 10 0 @ replicate 192 0 @ [99, 130, 83, 99] @ opts"

lemma length_concat_addrs [simp]: "length (concat (map in_addr_bytes ds)) = 4 * length ds"
  by (induction ds) simp_all

lemma length_dhcp_options [simp]:
  "length (dhcp_options discover mtu server subnet router dns lease) = 34 + 4 * length dns"
  by (simp add: dhcp_options_def)

lemma length_dhcp_response [simp]:
  "length (dhcp_response gap xid client mac opts) = 236 + length gap + length opts"
  by (simp add: dhcp_response_def)

lemmas put_at = put_byte_at put_array_at put_dns_at
  put_zeros_at [where n = 8, simplified] put_zeros_at [where n = 10, simplified]
  put_zeros_at [where n = 192, simplified] put_zeros_gap_at [where n = 4 and k = 4, simplified]

lemma writeResponse_layout:
  assumes wf: "wf_packet p" and fits: "int off + 274 + 4 * int (length dns) \<le> writtenByte p"
  shows "writeResponse p (int off) discover mtu xid client mac server subnet router dns lease =
    Inr (274 + 4 * int (length dns),
      written p off (dhcp_response (segment (off + 24) (off + 28) (inMemory p)) xid client mac
        (dhcp_options discover mtu server subnet router dns lease)))"
proof -
  have start: "(p, int off) = at p off []" by (simp add: at_def)
  have gap: "min 4 (length (inMemory p) - (off + 24)) = 4"
    using wf fits by (auto simp: wf_packet_def)
  show ?thesis
    unfolding writeResponse_def start
    using wf fits gap
    by (simp add: put_at) (simp add: at_def dhcp_response_def dhcp_options_def add.commute [of off])
qed

section \<open>Reading the response back\<close>

text \<open>The reference reader of the option field (RFC 2132): code, length, value; 0 is padding,
  255 ends the list.\<close>

function parse_options :: "byte list \<Rightarrow> (byte \<times> byte list) list option" where
  "parse_options [] = None"
| "parse_options (c # r) =
     (if c = 255 then Some []
      else if c = 0 then parse_options r
      else case r of
        [] \<Rightarrow> None
      | l # r' \<Rightarrow>
          if unat l \<le> length r'
          then map_option ((#) (c, take (unat l) r')) (parse_options (drop (unat l) r'))
          else None)"
  by pat_completeness auto
termination
  by (relation "measure length") auto

declare parse_options.simps(2) [simp del]

lemma parse_options_end [simp]: "parse_options (255 # r) = Some []"
  by (simp add: parse_options.simps(2))

lemma parse_options_step:
  "c \<noteq> 255 \<Longrightarrow> c \<noteq> 0 \<Longrightarrow> unat l = length v \<Longrightarrow>
   parse_options (c # l # v @ r) = map_option ((#) (c, v)) (parse_options r)"
  by (simp add: parse_options.simps(2))

lemma parse_dhcp_options:
  assumes "length dns \<le> 63"
  shows "parse_options (dhcp_options discover mtu server subnet router dns lease) =
    Some [(53, [if discover then 2 else 5]), (54, in_addr_bytes server), (51, bytes32 lease),
      (1, in_addr_bytes subnet), (3, in_addr_bytes router), (26, bytes16 mtu),
      (6, concat (map in_addr_bytes dns))]"
proof -
  have "unat (of_nat (length dns * 4) :: byte) = 4 * length dns"
    using assms by (simp only: unat_of_nat) simp
  then have dns: "parse_options (6 # of_nat (length dns * 4) # concat (map in_addr_bytes dns) @ r) =
      map_option ((#) (6, concat (map in_addr_bytes dns))) (parse_options r)" for r
    by (intro parse_options_step) auto
  have msg: "parse_options (53 # 1 # b # r) = map_option ((#) (53, [b])) (parse_options r)" for b r
    using parse_options_step [of 53 1 "[b]" r] by simp
  show ?thesis
    unfolding dhcp_options_def by (simp only: append_Cons append_Nil msg dns)
      (simp add: parse_options_step dns [simplified])
qed

lemma writeResponse_memory:
  assumes "wf_packet p" and "int off + 274 + 4 * int (length dns) \<le> writtenByte p"
    and "writeResponse p (int off) discover mtu xid client mac server subnet router dns lease = Inr (n, q)"
  defines "r \<equiv> dhcp_response (segment (off + 24) (off + 28) (inMemory p)) xid client mac
    (dhcp_options discover mtu server subnet router dns lease)"
  shows "n = 274 + 4 * int (length dns)" and "inMemory q = overwrite off r (inMemory p)"
    and "writtenByte q = writtenByte p" and "wf_packet q"
    and "length r = 274 + 4 * length dns"
    and "l \<le> 274 + 4 * length dns \<Longrightarrow> segment (off + k) (off + l) (inMemory q) = segment k l r"
proof -
  have len: "length r = 274 + 4 * length dns" using assms by (auto simp: r_def wf_packet_def)
  have q: "n = 274 + 4 * int (length dns)" "q = written p off r"
    using assms writeResponse_layout [OF assms(1,2)] by (auto simp: r_def)
  show "n = 274 + 4 * int (length dns)" and "inMemory q = overwrite off r (inMemory p)"
    and "writtenByte q = writtenByte p" and "length r = 274 + 4 * length dns"
    using q len by simp_all
  show "wf_packet q" using assms(1,2) q len by (simp add: wf_written)
  show "l \<le> 274 + 4 * length dns \<Longrightarrow> segment (off + k) (off + l) (inMemory q) = segment k l r"
    unfolding q(2) using assms(1,2) len by (intro segment_written) auto
qed

lemma dhcp_response_segments:
  assumes "length gap = 4"
  shows "segment 0 (Suc 0) (dhcp_response gap xid client mac opts) = [2]"
    and "segment 4 8 (dhcp_response gap xid client mac opts) = bytes32 xid"
    and "segment 16 20 (dhcp_response gap xid client mac opts) = in_addr_bytes client"
    and "segment 24 28 (dhcp_response gap xid client mac opts) = gap"
    and "segment 28 34 (dhcp_response gap xid client mac opts) = octets mac"
    and "240 \<le> k \<Longrightarrow> segment k l (dhcp_response gap xid client mac opts) = segment (k - 240) (l - 240) opts"
  using assms
  by (simp_all add: dhcp_response_def segment_skip segment_skip_Cons) (simp_all add: segment_def)

lemma dhcp_options_type:
  "segment 2 3 (dhcp_options discover mtu server subnet router dns lease) =
     [if discover then 2 else 5]"
  by (simp add: dhcp_options_def segment_def)

lemma readByte_segment:
  assumes "wf_packet p" and "int i < writtenByte p" and "segment i j (inMemory p) = [b]"
    and "j = i + 1"
  shows "readByte p (int i) = Inr (uint b)"
  using assms by (auto simp: readByte_inside wf_packet_def segment_one)

lemma writeResponse_reads_back:
  assumes "wf_packet p" and "int off + 274 + 4 * int (length dns) \<le> writtenByte p"
    and "writeResponse p (int off) discover mtu xid client mac server subnet router dns lease = Inr (n, q)"
  shows "DHCP_getOpcode q (int off) = Inr 2"
    and "DHCP_getTransactionID q (int off) = Inr xid"
    and "DHCP_getClientMAC q (int off) = Inr mac"
    and "DHCP_getMessageType q (int off) = Inr (if discover then 2 else 5)"
    and "segment (off + 240) (off + nat n) (inMemory q) =
      dhcp_options discover mtu server subnet router dns lease"
proof -
  note q = writeResponse_memory [OF assms]
  have gap: "length (segment (off + 24) (off + 28) (inMemory p)) = 4"
    using assms(1,2) by (auto simp: wf_packet_def)
  note seg = dhcp_response_segments [OF gap]
  have "segment (off + 0) (off + 1) (inMemory q) = [2]" by (subst q(6)) (simp_all add: seg)
  then show "DHCP_getOpcode q (int off) = Inr 2"
    using q(3,4) assms(2) readByte_segment [of q off "off + 1" 2] by (simp add: DHCP_getOpcode_def)
  have "segment (off + 4) (off + 8) (inMemory q) = bytes32 xid" by (subst q(6)) (simp_all add: seg)
  then show "DHCP_getTransactionID q (int off) = Inr xid"
    using q(3,4) assms(2)
    by (simp add: DHCP_getTransactionID_def readByteArray_inside into_uninit_def nat_add_distrib)
  have "segment (off + 28) (off + 34) (inMemory q) = octets mac" by (subst q(6)) (simp_all add: seg)
  then show "DHCP_getClientMAC q (int off) = Inr mac"
    using q(3,4) assms(2)
    by (simp add: DHCP_getClientMAC_def readByteArray_inside into_uninit_def nat_add_distrib)
  have "segment (off + 242) (off + 243) (inMemory q) = [if discover then 2 else 5]"
    by (subst q(6)) (simp_all add: seg dhcp_options_type)
  then have "readByte q (int (off + 242)) = Inr (uint (if discover then 2 else 5 :: byte))"
    by (rule readByte_segment [rotated 2]) (use q(3,4) assms(2) in auto)
  then show "DHCP_getMessageType q (int off) = Inr (if discover then 2 else 5)"
    by (cases discover) (simp_all add: DHCP_getMessageType_def)
  show "segment (off + 240) (off + nat n) (inMemory q) =
      dhcp_options discover mtu server subnet router dns lease"
    using q(1) by (simp add: nat_add_distrib) (subst q(6), simp_all add: seg)
qed

section \<open>Properties\<close>

text \<open>The message as the comments of \<^verbatim>\<open>writeResponse\<close> describe it, the server and the gateway address zero.\<close>

definition dhcp_message :: "u32 \<Rightarrow> in_addr \<Rightarrow> ether_addr \<Rightarrow> byte list \<Rightarrow> byte list" where
  "dhcp_message xid client mac opts =
     [2, 1, 6, 0] @ bytes32 xid @ replicate 8 0 @ in_addr_bytes client @ replicate 8 0 @
     octets mac @ replicate 10 0 @ replicate 192 0 @ [99, 130, 83, 99] @ opts"

lemma dhcp_message_gap:
  assumes "length gap = 4"
  shows "overwrite 24 gap (dhcp_message xid client mac opts) = dhcp_response gap xid client mac opts"
  using assms by (simp add: overwrite_def dhcp_message_def dhcp_response_def numeral_eq_Suc)

lemma dhcp_response_message:
  assumes "length gap = 4"
  shows "dhcp_response gap xid client mac opts = dhcp_message xid client mac opts \<longleftrightarrow> gap = [0, 0, 0, 0]"
  using assms by (auto simp: dhcp_message_def dhcp_response_def numeral_eq_Suc)

text \<open>
  C8: A response written where it fits has the length \<open>274 + 4n\<close> for \<open>n\<close> name servers. The buffer then
  holds the BOOTP header, the magic number and the options of the arguments byte for byte, except for the four
  bytes of the gateway (relay agent) address, 24 to 27, which keep what the buffer held before although the
  comment in the code says they are cleared: the message is the described one exactly when these bytes were zero
  already. Every byte before and behind the message is unchanged.
\<close>

theorem writeResponse_message:
  fixes p :: packet and off :: nat and dns :: "in_addr list" and xid :: u32 and client :: in_addr
    and mac :: ether_addr and discover :: bool and mtu :: u16 and server subnet router :: in_addr and lease :: u32
  assumes "wf_packet p" and "int off + 274 + 4 * int (length dns) \<le> writtenByte p"
  defines "msg \<equiv> dhcp_message xid client mac (dhcp_options discover mtu server subnet router dns lease)"
    and "old \<equiv> segment (off + 24) (off + 28) (inMemory p)"
  shows "\<exists>q. writeResponse p (int off) discover mtu xid client mac server subnet router dns lease =
      Inr (274 + 4 * int (length dns), q) \<and>
    inMemory q = take off (inMemory p) @ overwrite 24 old msg @ drop (off + 274 + 4 * length dns) (inMemory p) \<and>
    (segment off (off + 274 + 4 * length dns) (inMemory q) = msg \<longleftrightarrow> old = [0, 0, 0, 0])"
proof -
  let ?r = "dhcp_response old xid client mac (dhcp_options discover mtu server subnet router dns lease)"
  have len: "length old = 4" "off \<le> length (inMemory p)" using assms(1,2) by (auto simp: wf_packet_def old_def)
  have "inMemory (written p off ?r) = take off (inMemory p) @ ?r @ drop (off + 274 + 4 * length dns) (inMemory p)"
    using len by (simp add: overwrite_def add.assoc)
  moreover have "segment off (off + 274 + 4 * length dns)
      (take off (inMemory p) @ ?r @ drop (off + 274 + 4 * length dns) (inMemory p)) = ?r"
    using len by (simp add: segment_def)
  ultimately show ?thesis
    using writeResponse_layout [OF assms(1,2), of discover mtu xid client mac server subnet router lease]
      dhcp_message_gap [OF len(1)] dhcp_response_message [OF len(1)]
    by (simp add: msg_def old_def)
qed

definition dhcp_buffer :: packet where
  "dhcp_buffer = \<lparr>writtenByte = 300, capacity = 300, inMemory = replicate 300 0xEE\<rparr>"

lemma wf_dhcp_buffer: "wf_packet dhcp_buffer" "writtenByte dhcp_buffer = 300"
  by (simp_all add: dhcp_buffer_def wf_packet_def)

theorem writeResponse_message_witness:
  "\<exists>q. writeResponse dhcp_buffer (int 1) True 0xDC05 0xDDCCBBAA \<lparr>s_addr = 0x0700000A\<rparr>
      (EtherAddr 1 2 3 4 5 6) \<lparr>s_addr = 0x0100000A\<rparr> \<lparr>s_addr = 0x00FFFFFF\<rparr> \<lparr>s_addr = 0x0100000A\<rparr>
      [\<lparr>s_addr = 0x08080808\<rparr>] 7200 = Inr (278, q) \<and>
    inMemory q = [0xEE] @ overwrite 24 [0xEE, 0xEE, 0xEE, 0xEE] (dhcp_message 0xDDCCBBAA \<lparr>s_addr = 0x0700000A\<rparr>
      (EtherAddr 1 2 3 4 5 6)
      (dhcp_options True 0xDC05 \<lparr>s_addr = 0x0100000A\<rparr> \<lparr>s_addr = 0x00FFFFFF\<rparr> \<lparr>s_addr = 0x0100000A\<rparr>
        [\<lparr>s_addr = 0x08080808\<rparr>] 7200)) @ replicate 21 0xEE"
proof -
  have seg: "segment 25 29 (inMemory dhcp_buffer) = [0xEE, 0xEE, 0xEE, 0xEE]"
    by (simp add: dhcp_buffer_def segment_def numeral_eq_Suc)
  have "take 1 (inMemory dhcp_buffer) = [0xEE]" "drop 279 (inMemory dhcp_buffer) = replicate 21 0xEE"
    by (simp_all add: dhcp_buffer_def numeral_eq_Suc)
  then show ?thesis
    using writeResponse_message [of dhcp_buffer 1 "[\<lparr>s_addr = 0x08080808\<rparr>]" True "0xDC05" "0xDDCCBBAA"
        "\<lparr>s_addr = 0x0700000A\<rparr>" "EtherAddr 1 2 3 4 5 6" "\<lparr>s_addr = 0x0100000A\<rparr>"
        "\<lparr>s_addr = 0x00FFFFFF\<rparr>" "\<lparr>s_addr = 0x0100000A\<rparr>" 7200] wf_dhcp_buffer
    by (simp add: seg) blast
qed

text \<open>
  C30: What \<^verbatim>\<open>writeResponse\<close> writes, the readers of the same class read back: opcode 2, the
  transaction id and the client's MAC address of the arguments, and message type 2 (OFFER) or
  5 (ACK). With at most 63 name servers the option field is well formed and a standard option
  reader finds exactly the message type, server identifier, lease time, subnet mask, router, MTU
  and name server options.
\<close>

theorem writeResponse_roundtrip:
  assumes "wf_packet p" and "int off + 274 + 4 * int (length dns) \<le> writtenByte p"
    and "length dns \<le> 63"
    and "writeResponse p (int off) discover mtu xid client mac server subnet router dns lease = Inr (n, q)"
  shows "DHCP_getOpcode q (int off) = Inr 2 \<and>
    DHCP_getTransactionID q (int off) = Inr xid \<and>
    DHCP_getClientMAC q (int off) = Inr mac \<and>
    DHCP_getMessageType q (int off) = Inr (if discover then 2 else 5) \<and>
    parse_options (segment (off + 240) (off + nat n) (inMemory q)) =
      Some [(53, [if discover then 2 else 5]), (54, in_addr_bytes server), (51, bytes32 lease),
        (1, in_addr_bytes subnet), (3, in_addr_bytes router), (26, bytes16 mtu),
        (6, concat (map in_addr_bytes dns))]"
  using writeResponse_reads_back [OF assms(1,2,4)] parse_dhcp_options [OF assms(3)] by simp

theorem writeResponse_roundtrip_witness:
  "\<exists>q. writeResponse dhcp_buffer (int 0) False 0xDC05 0xDDCCBBAA \<lparr>s_addr = 0x0700000A\<rparr>
      (EtherAddr 1 2 3 4 5 6) \<lparr>s_addr = 0x0100000A\<rparr> \<lparr>s_addr = 0x00FFFFFF\<rparr> \<lparr>s_addr = 0x0100000A\<rparr>
      [\<lparr>s_addr = 0x08080808\<rparr>] 7200 = Inr (278, q) \<and>
    DHCP_getMessageType q (int 0) = Inr 5 \<and> DHCP_getTransactionID q (int 0) = Inr 0xDDCCBBAA"
proof -
  let ?dns = "[\<lparr>s_addr = 0x08080808\<rparr>]"
  have room: "int 0 + 274 + 4 * int (length ?dns) \<le> writtenByte dhcp_buffer" and few: "length ?dns \<le> 63"
    by (simp_all add: wf_dhcp_buffer)
  show ?thesis
    using writeResponse_layout [OF wf_dhcp_buffer(1) room]
      writeResponse_roundtrip [OF wf_dhcp_buffer(1) room few
        writeResponse_layout [OF wf_dhcp_buffer(1) room]] by simp
qed

text \<open>
  \<^verbatim>\<open>writeResponse\<close> never writes the relay agent's address: its loop over "Server IP Address +
  Gateway IP Address" clears four bytes and advances by eight, so bytes 24 to 27 of every
  response are whatever the buffer held before.
\<close>

theorem writeResponse_relay_address_unwritten:
  assumes "wf_packet p" and "int off + 274 + 4 * int (length dns) \<le> writtenByte p"
    and "writeResponse p (int off) discover mtu xid client mac server subnet router dns lease = Inr (n, q)"
  shows "segment (off + 24) (off + 28) (inMemory q) = segment (off + 24) (off + 28) (inMemory p)"
proof -
  have "length (segment (off + 24) (off + 28) (inMemory p)) = 4"
    using assms(1,2) by (auto simp: wf_packet_def)
  then show ?thesis
    using writeResponse_memory(6) [OF assms, of 28 24] by (simp add: dhcp_response_segments)
qed

theorem writeResponse_relay_address_unwritten_witness:
  "\<exists>q. writeResponse dhcp_buffer (int 0) True 0xDC05 0xDDCCBBAA \<lparr>s_addr = 0x0700000A\<rparr>
      (EtherAddr 1 2 3 4 5 6) \<lparr>s_addr = 0x0100000A\<rparr> \<lparr>s_addr = 0x00FFFFFF\<rparr> \<lparr>s_addr = 0x0100000A\<rparr>
      [] 7200 = Inr (274, q) \<and> segment 24 28 (inMemory q) = [0xEE, 0xEE, 0xEE, 0xEE]"
proof -
  have room: "int 0 + 274 + 4 * int (length []) \<le> writtenByte dhcp_buffer"
    by (simp add: wf_dhcp_buffer)
  have seg: "segment 24 28 (inMemory dhcp_buffer) = [0xEE, 0xEE, 0xEE, 0xEE]"
    by (simp add: dhcp_buffer_def segment_def numeral_eq_Suc)
  show ?thesis
    using writeResponse_layout [OF wf_dhcp_buffer(1) room]
      writeResponse_relay_address_unwritten [OF wf_dhcp_buffer(1) room
        writeResponse_layout [OF wf_dhcp_buffer(1) room]] by (simp add: seg)
qed

end
