(* ===== verification/Ethernet.thy ===== *)
theory Ethernet
  imports Packet
begin

text \<open>
  The class of \<^verbatim>\<open>ethernet.cpp\<close>: source, destination and protocol of the Ethernet header,
  and the text form of a MAC address. The object is a packet pointer and an offset; the
  packet is threaded through, the offset is an argument.
\<close>

section \<open>Header fields\<close>

definition Ethernet_new :: int where
  "Ethernet_new = 0"

definition Ethernet_at :: "int \<Rightarrow> int" where
  "Ethernet_at offset = offset"

definition Ethernet_getSource :: "packet \<Rightarrow> int \<Rightarrow> ether_addr result" where
  "Ethernet_getSource p offset =
     into_uninit ether_of (readByteArray p (offset + ETH_ALEN) (offset + ETH_ALEN + ETH_ALEN))"

definition Ethernet_getDestination :: "packet \<Rightarrow> int \<Rightarrow> ether_addr result" where
  "Ethernet_getDestination p offset =
     into_uninit ether_of (readByteArray p offset (offset + ETH_ALEN))"

definition Ethernet_setSource :: "packet \<Rightarrow> int \<Rightarrow> ether_addr \<Rightarrow> packet result" where
  "Ethernet_setSource p offset addr =
     writeByteArray p (offset + ETH_ALEN) (offset + ETH_ALEN + ETH_ALEN) (octets addr)"

definition Ethernet_setDestination :: "packet \<Rightarrow> int \<Rightarrow> ether_addr \<Rightarrow> packet result" where
  "Ethernet_setDestination p offset addr =
     writeByteArray p offset (offset + ETH_ALEN) (octets addr)"

definition Ethernet_getProtocol :: "packet \<Rightarrow> int \<Rightarrow> u16 result" where
  "Ethernet_getProtocol p offset =
     mapR ntohs (into_init le16 0
       (readByteArray p (offset + ETH_ALEN + ETH_ALEN) (offset + ETH_ALEN + ETH_ALEN + 2)))"

definition Ethernet_setProtocol :: "packet \<Rightarrow> int \<Rightarrow> u16 \<Rightarrow> packet result" where
  "Ethernet_setProtocol p offset protocol_host =
     (let proto = htons protocol_host
      in writeByteArray p (offset + ETH_ALEN + ETH_ALEN) (offset + ETH_ALEN + ETH_ALEN + 2)
           (bytes16 proto))"

definition Ethernet_getNextOffset :: "int \<Rightarrow> int" where
  "Ethernet_getNextOffset offset = offset + sizeof_ether_header"

section \<open>MAC addresses as text\<close>

text \<open>\<^verbatim>\<open>%02X\<close> of one octet, and the format of \<^verbatim>\<open>printMAC\<close>.\<close>

definition hex_digits :: string where
  "hex_digits = ''0123456789ABCDEF''"

definition hex2 :: "byte \<Rightarrow> string" where
  "hex2 b = [hex_digits ! (unat b div 16), hex_digits ! (unat b mod 16)]"

fun mac_text :: "ether_addr \<Rightarrow> string" where
  "mac_text (EtherAddr a b c d e f) =
     hex2 a @ '':'' @ hex2 b @ '':'' @ hex2 c @ '':'' @ hex2 d @ '':'' @ hex2 e @ '':'' @ hex2 f"

text \<open>\<^verbatim>\<open>snprintf\<close> keeps at most \<open>len - 1\<close> characters before the terminator; \<open>buf\<close> is the
  string the buffer held before.\<close>

definition printMAC :: "ether_addr \<Rightarrow> string \<Rightarrow> nat \<Rightarrow> string" where
  "printMAC addr buf len = (if len = 0 then buf else take (len - 1) (mac_text addr))"

definition hex_to_byte :: "byte \<Rightarrow> int" where
  "hex_to_byte hex =
     (let h = uint hex
      in if h \<ge> of_char CHR ''a'' \<and> h \<le> of_char CHR ''f'' then h + 10 - of_char CHR ''a''
         else if h \<ge> of_char CHR ''A'' \<and> h \<le> of_char CHR ''F'' then h + 10 - of_char CHR ''A''
         else if h \<ge> of_char CHR ''0'' \<and> h \<le> of_char CHR ''9'' then h - of_char CHR ''0''
         else -1)"

text \<open>
  The loop of \<^verbatim>\<open>readMAC\<close> over \<^verbatim>\<open>temp\<close>, \<^verbatim>\<open>start\<close>, \<^verbatim>\<open>go_next\<close> and \<^verbatim>\<open>buf\<close>. \<open>buf\<close> is the
  memory from the pointer to the end of the object it points into, the terminating zero
  included: the loop has no other bound.
\<close>

fun readMAC_loop :: "byte list \<Rightarrow> nat \<Rightarrow> bool \<Rightarrow> string \<Rightarrow> byte list result" where
  "readMAC_loop temp start go_next [] = (if start < 6 then Inl OutOfBounds else Inr temp)"
| "readMAC_loop temp start go_next (c # buf) =
     (if start < 6 then
        (let ret = hex_to_byte (of_char c)
         in if ret = -1 then readMAC_loop temp start go_next buf
            else if \<not> go_next then
              readMAC_loop (temp[start := temp ! start OR push_bit 4 (word_of_int ret)]) start True buf
            else
              readMAC_loop (temp[start := temp ! start OR word_of_int ret]) (Suc start) False buf)
      else Inr temp)"

definition readMAC :: "string \<Rightarrow> ether_addr result" where
  "readMAC buf = mapR ether_of (readMAC_loop (replicate 6 0) 0 False buf)"

section \<open>The fields satisfy the field interface\<close>

lemma Ethernet_offsets [simp]:
  "Ethernet_new = 0" "Ethernet_at off = off" "Ethernet_getNextOffset off = off + 14"
  by (simp_all add: Ethernet_new_def Ethernet_at_def Ethernet_getNextOffset_def sizes)

interpretation eth_src: packet_field Ethernet_getSource Ethernet_setSource 6 12 octets ether_of
  "Inl Uninitialised"
  by unfold_locales
    (auto simp: Ethernet_getSource_def Ethernet_setSource_def into_uninit_def sizes octets_ether_of
      add.commute)

interpretation eth_dst: packet_field Ethernet_getDestination Ethernet_setDestination 0 6 octets
  ether_of "Inl Uninitialised"
  by unfold_locales
    (auto simp: Ethernet_getDestination_def Ethernet_setDestination_def into_uninit_def sizes
      octets_ether_of add.commute)

lemma bytes16_le16_list: "length bs = 2 \<Longrightarrow> bytes16 (le16 bs) = bs"
  by (auto simp: length_Suc_conv numeral_eq_Suc simp del: le16.simps)

lemma field16_eq: "length bs = 2 \<Longrightarrow> ntohs (le16 bs) = v \<longleftrightarrow> bs = bytes16 (htons v)"
  by (metis bytes16_le16_list htons_ntohs le16_bytes16 ntohs_htons)

lemma ntohs_0 [simp]: "ntohs 0 = 0"
  by (simp add: ntohs_def)

lemma Ethernet_getProtocol_reads:
  "Ethernet_getProtocol p off =
     into_init (\<lambda>bs. ntohs (le16 bs)) 0 (readByteArray p (off + 12) (off + 14))"
  by (simp add: Ethernet_getProtocol_def mapR_into_init sizes add.commute)

interpretation eth_proto: packet_field Ethernet_getProtocol Ethernet_setProtocol 12 14
  "\<lambda>v. bytes16 (htons v)" "\<lambda>bs. ntohs (le16 bs)" "Inr 0"
  by unfold_locales
    (auto simp: Ethernet_getProtocol_reads Ethernet_setProtocol_def into_init_def sizes
      bytes16_le16_list add.commute)

lemmas Ethernet_wire [wire] =
  eth_src.get_inside eth_src.set_inside eth_dst.get_inside eth_dst.set_inside
  eth_proto.get_inside eth_proto.set_inside eth_proto.get_outside

section \<open>Reading a MAC address\<close>

text \<open>The specification: the first twelve hexadecimal digits of the buffer, in pairs. The digits and their values
  are a table, independent of the code's comparisons of characters.\<close>

definition hex_digit :: "char \<Rightarrow> nat option" where
  "hex_digit = map_of (zip ''0123456789abcdefABCDEF''
     [0, 1, 2, 3, 4, 5, 6, 7, 8, 9, 10, 11, 12, 13, 14, 15, 10, 11, 12, 13, 14, 15])"

fun hex_values :: "string \<Rightarrow> int list" where
  "hex_values [] = []"
| "hex_values (c # s) = (case hex_digit c of None \<Rightarrow> hex_values s | Some v \<Rightarrow> int v # hex_values s)"

fun pair_octets :: "int list \<Rightarrow> byte list" where
  "pair_octets (h # l # vs) = (push_bit 4 (word_of_int h) OR word_of_int l) # pair_octets vs"
| "pair_octets _ = []"

text \<open>The code's conversion agrees with the table.\<close>

lemma uint_of_char: "uint (of_char c :: byte) = int (of_char c)"
proof -
  have "(of_char c :: byte) = of_nat (of_char c)" by (simp only: of_nat_of_char)
  then show ?thesis by (simp add: uint_nat unat_of_nat)
qed

lemma hex_digit_keys: "hex_digit c \<noteq> None \<longleftrightarrow> c \<in> set ''0123456789abcdefABCDEF''"
  by (simp add: hex_digit_def)

lemma hex_range:
  assumes "hex_to_byte (of_char c) \<noteq> -1"
  shows "c \<in> set ''0123456789abcdefABCDEF''"
proof -
  let ?n = "of_char c :: nat"
  have "48 \<le> ?n \<and> ?n \<le> 57 \<or> 65 \<le> ?n \<and> ?n \<le> 70 \<or> 97 \<le> ?n \<and> ?n \<le> 102"
    using assms by (simp add: hex_to_byte_def Let_def uint_of_char split: if_split_asm)
  then have "?n \<in> set ([48..<58] @ [65..<71] @ [97..<103])"
    unfolding set_append set_upt Un_iff atLeastLessThan_iff by linarith
  then have "char_of ?n \<in> set (map char_of ([48..<58] @ [65..<71] @ [97..<103 :: nat]))"
    unfolding set_map by (rule imageI)
  also have "map char_of ([48..<58] @ [65..<71] @ [97..<103 :: nat]) = ''0123456789ABCDEFabcdef''"
    by code_simp
  finally show ?thesis by auto
qed

lemma hex_to_byte_digit: "hex_to_byte (of_char c) = (case hex_digit c of None \<Rightarrow> -1 | Some v \<Rightarrow> int v)"
proof (cases "c \<in> set ''0123456789abcdefABCDEF''")
  case True
  then show ?thesis by (auto simp: hex_digit_def hex_to_byte_def Let_def)
next
  case False
  then have "hex_digit c = None" using hex_digit_keys [of c] by blast
  then show ?thesis using hex_range [of c] False by auto
qed

lemma hex_values_simps [simp]:
  "hex_values [] = []"
  "hex_values (c # s) =
     (if hex_to_byte (of_char c) = -1 then hex_values s else hex_to_byte (of_char c) # hex_values s)"
  by (simp_all add: hex_to_byte_digit split: option.split)

declare hex_values.simps(2) [simp del]

text \<open>With \<open>k\<close> octets done, the loop appends the next octets to the ones it has; a pending high
  nibble is in the octet under construction.\<close>

definition mac_spec :: "byte list \<Rightarrow> nat \<Rightarrow> int list \<Rightarrow> byte list result" where
  "mac_spec done n vs =
     (if length vs < n then Inl OutOfBounds else Inr (done @ pair_octets (take n vs)))"

lemma readMAC_loop_high:
  assumes "length done = k" and "k < 6" and "hex_to_byte (of_char c) \<noteq> -1"
  shows "readMAC_loop (done @ replicate (6 - k) 0) k False (c # s) =
    readMAC_loop (done @ push_bit 4 (word_of_int (hex_to_byte (of_char c))) # replicate (5 - k) 0) k True s"
  using assms by (simp add: Let_def list_update_append nth_append Suc_diff_le flip: replicate_Suc)
    (simp add: numeral_eq_Suc Suc_diff_le)

lemma readMAC_loop_low:
  assumes "length done = k" and "k < 6" and "hex_to_byte (of_char c) \<noteq> -1"
  shows "readMAC_loop (done @ push_bit 4 (word_of_int h) # replicate (5 - k) 0) k True (c # s) =
    readMAC_loop ((done @ [push_bit 4 (word_of_int h) OR word_of_int (hex_to_byte (of_char c))]) @
      replicate (6 - Suc k) 0) (Suc k) False s"
  using assms by (simp add: Let_def list_update_append nth_append)

lemma mac_spec_octet:
  assumes "k < 6"
  shows "mac_spec (done @ [push_bit 4 (word_of_int h) OR word_of_int l]) (2 * (6 - Suc k)) ds =
    mac_spec done (2 * (6 - k)) (h # l # ds)"
proof -
  have "2 * (6 - k) = Suc (Suc (2 * (6 - Suc k)))" using assms by auto
  then show ?thesis by (auto simp: mac_spec_def)
qed

lemma readMAC_loop_spec:
  "length done = k \<Longrightarrow> k \<le> 6 \<Longrightarrow>
     readMAC_loop (done @ replicate (6 - k) 0) k False s = mac_spec done (2 * (6 - k)) (hex_values s)"
  "length done = k \<Longrightarrow> k < 6 \<Longrightarrow>
     readMAC_loop (done @ push_bit 4 (word_of_int h) # replicate (5 - k) 0) k True s =
     mac_spec done (2 * (6 - k)) (h # hex_values s)"
proof (induction s arbitrary: "done" k h)
  case Nil
  {
    case 1 then show ?case by (auto simp: mac_spec_def)
  next
    case 2 then show ?case by (auto simp: mac_spec_def)
  }
next
  case (Cons c s)
  let ?v = "hex_to_byte (of_char c)"
  {
    case 1
    show ?case
    proof (cases "k < 6 \<and> ?v \<noteq> -1")
      case True
      with 1 Cons.IH(2) [of "done" k ?v] show ?thesis using readMAC_loop_high [of "done" k c s] by simp
    next
      case False
      with 1 Cons.IH(1) [of "done" k] show ?thesis by (auto simp: mac_spec_def)
    qed
  next
    case 2
    show ?case
    proof (cases "?v = -1")
      case True
      with 2 Cons.IH(2) [of "done" k h] show ?thesis by simp
    next
      case False
      have "readMAC_loop ((done @ [push_bit 4 (word_of_int h) OR word_of_int ?v]) @ replicate (6 - Suc k) 0) (Suc k) False s =
          mac_spec done (2 * (6 - k)) (h # ?v # hex_values s)"
        unfolding mac_spec_octet [OF 2(2), symmetric] using 2 by (intro Cons.IH(1)) auto
      then show ?thesis unfolding readMAC_loop_low [OF 2 False] using False by simp
    qed
  }
qed

lemma readMAC_by_digits:
  "readMAC s =
     (if length (hex_values s) < 12 then Inl OutOfBounds
      else Inr (ether_of (pair_octets (take 12 (hex_values s)))))"
  using readMAC_loop_spec(1) [of "[]" 0 s] by (simp add: readMAC_def mac_spec_def)

section \<open>Printing and reading back\<close>

lemma length_mac_text [simp]: "length (mac_text m) = 17"
  by (cases m) (simp add: hex2_def)

lemma printMAC_full: "18 \<le> len \<Longrightarrow> printMAC m buf len = mac_text m"
  by (simp add: printMAC_def)

lemma hex_digit_value:
  assumes "n < 16"
  shows "hex_to_byte (of_char (hex_digits ! n)) = int n"
proof -
  have "\<forall>n\<in>set [0..<16]. hex_to_byte (of_char (hex_digits ! n)) = int n"
    by code_simp
  with assms show ?thesis by simp
qed

lemma hex_values_append [simp]: "hex_values (s @ t) = hex_values s @ hex_values t"
  by (induction s) simp_all

lemma hex_values_hex2 [simp]: "hex_values (hex2 b) = [int (unat b div 16), int (unat b mod 16)]"
proof -
  have "unat b div 16 < 16" using unat_byte_less [of b] by auto
  then show ?thesis by (simp add: hex2_def hex_digit_value)
qed

lemma hex_values_colon [simp]: "hex_values (CHR '':'' # s) = hex_values s"
  by (simp add: hex_to_byte_def Let_def)

lemma nibbles [simp]:
  "push_bit 4 (word_of_nat (unat b div 16)) OR word_of_nat (unat b mod 16) = (b :: byte)"
proof -
  have hi: "unat b div 16 = unat (drop_bit 4 b)" and lo: "unat b mod 16 = unat (take_bit 4 b)"
    by (simp_all add: drop_bit_eq_div take_bit_eq_mod unat_div unat_mod)
  show ?thesis
    unfolding hi lo by (rule bit_word_eqI) (auto simp: bit_simps)
qed

lemma readMAC_mac_text: "readMAC (mac_text m @ s) = Inr m"
  by (cases m) (simp add: readMAC_by_digits del: hex_values_simps)

lemma hex_values_truncated:
  assumes "n < 17"
  shows "length (hex_values (take n (mac_text m))) < 12"
proof -
  let ?s = "mac_text m"
  obtain b where last: "last ?s = hex_digits ! (unat (b :: byte) mod 16)" by (cases m) (auto simp: hex2_def)
  have "drop n ?s \<noteq> []" using assms by simp
  then obtain t where t: "drop n ?s = t @ [last ?s]" by (metis append_butlast_last_id last_drop assms length_mac_text)
  have "unat b mod 16 < 16" by simp
  from hex_digit_value [OF this] have "hex_values (drop n ?s) \<noteq> []" unfolding t last by simp
  moreover have "length (hex_values ?s) = 12" by (cases m) (simp del: hex_values_simps)
  moreover have "hex_values ?s = hex_values (take n ?s) @ hex_values (drop n ?s)"
    by (metis append_take_drop_id hex_values_append)
  ultimately show ?thesis by (cases "hex_values (drop n ?s)") auto
qed

section \<open>Properties\<close>

text \<open>
  C32: The loop of \<^verbatim>\<open>readMAC\<close>, with its nibble flag and its octet counter, computes the six octets made
  of the first twelve hexadecimal digits of the memory it is given, in pairs, whatever stands
  between them; with fewer digits it reads past the end of that memory. The digits are 0 to 9, a to f and A to F with
  their values, by a table that is independent of the code's comparisons.
\<close>

theorem readMAC_reads_digits:
  "readMAC s =
     (if length (hex_values s) < 12 then Inl OutOfBounds
      else Inr (ether_of (pair_octets (take 12 (hex_values s)))))"
  by (rule readMAC_by_digits)

text \<open>
  C31: Reading back a printed address gives the address, whatever follows it in memory, when the buffer has
  room for the seventeen characters and the terminator; the text cut short by any smaller buffer
  makes the reader run past its end.
\<close>

theorem printMAC_readMAC:
  assumes "0 < len"
  shows "readMAC (printMAC m buf len) = (if 18 \<le> len then Inr m else Inl OutOfBounds)"
proof (cases "18 \<le> len")
  case True
  then show ?thesis using readMAC_mac_text [of m "[]"] by (simp add: printMAC_full)
next
  case False
  then show ?thesis
    using assms hex_values_truncated [of "len - 1" m] by (simp add: printMAC_def readMAC_by_digits)
qed

theorem printMAC_readMAC_witness:
  "readMAC (printMAC (EtherAddr 0x78 0x19 0xF7 0x58 0x30 0x01) [] 32) = Inr (EtherAddr 0x78 0x19 0xF7 0x58 0x30 0x01) \<and>
   readMAC (printMAC (EtherAddr 0x78 0x19 0xF7 0x58 0x30 0x01) [] 17) = Inl OutOfBounds"
  using printMAC_readMAC [of 32 "EtherAddr 0x78 0x19 0xF7 0x58 0x30 0x01" "[]"]
    printMAC_readMAC [of 17 "EtherAddr 0x78 0x19 0xF7 0x58 0x30 0x01" "[]"] by simp

end
