(* ===== verification/IPv4.thy ===== *)
theory IPv4
  imports Packet
begin

text \<open>
  The class of \<^verbatim>\<open>ip.cpp\<close>: addresses, protocol and header length of the IPv4 header that
  starts at an offset of a packet.
\<close>

section \<open>Header fields\<close>

definition IP_getSource :: "packet \<Rightarrow> int \<Rightarrow> in_addr result" where
  "IP_getSource p offset = into_uninit in_addr_of (readByteArray p (offset + 12) (offset + 16))"

definition IP_getDestination :: "packet \<Rightarrow> int \<Rightarrow> in_addr result" where
  "IP_getDestination p offset = into_uninit in_addr_of (readByteArray p (offset + 16) (offset + 20))"

definition IP_setSource :: "packet \<Rightarrow> int \<Rightarrow> in_addr \<Rightarrow> packet result" where
  "IP_setSource p offset addr = writeByteArray p (offset + 12) (offset + 16) (in_addr_bytes addr)"

definition IP_setDestination :: "packet \<Rightarrow> int \<Rightarrow> in_addr \<Rightarrow> packet result" where
  "IP_setDestination p offset addr = writeByteArray p (offset + 16) (offset + 20) (in_addr_bytes addr)"

text \<open>The result of \<^verbatim>\<open>readByte\<close> is narrowed to \<^verbatim>\<open>uint8_t\<close>: the failure value -1 reads as 255.\<close>

definition IP_getProtocol :: "packet \<Rightarrow> int \<Rightarrow> byte result" where
  "IP_getProtocol p offset = mapR word_of_int (readByte p (offset + 9))"

definition IP_setProtocol :: "packet \<Rightarrow> int \<Rightarrow> byte \<Rightarrow> packet result" where
  "IP_setProtocol p offset proto = writeByte p (offset + 9) proto"

definition IP_getNextOffset :: "packet \<Rightarrow> int \<Rightarrow> int result" where
  "IP_getNextOffset p offset =
     mapR (\<lambda>r. let hlen = (word_of_int r :: byte) AND 0x0F;
                   hlen = (if hlen < 5 then 5 else hlen)
               in offset + uint hlen * 4)
       (readByte p (offset + 0))"

section \<open>The fields satisfy the field interface\<close>

interpretation ip_src: packet_field IP_getSource IP_setSource 12 16 in_addr_bytes in_addr_of
  "Inl Uninitialised"
  by unfold_locales
    (auto simp: IP_getSource_def IP_setSource_def into_uninit_def in_addr_bytes_of)

interpretation ip_dst: packet_field IP_getDestination IP_setDestination 16 20 in_addr_bytes
  in_addr_of "Inl Uninitialised"
  by unfold_locales
    (auto simp: IP_getDestination_def IP_setDestination_def into_uninit_def in_addr_bytes_of)

interpretation ip_proto: packet_field IP_getProtocol IP_setProtocol 9 10 "\<lambda>b. [b]" hd "Inr 255"
proof unfold_locales
  show "IP_getProtocol p off = bindR (readByteArray p (off + 9) (off + 10))
      (\<lambda>r. case r of None \<Rightarrow> Inr 255 | Some bs \<Rightarrow> Inr (hd bs))" for p off
    by (cases "readByteArray p (off + 9) (off + 10)")
      (auto simp: IP_getProtocol_def readByte_as_array add.assoc split: option.splits)
qed (auto simp: IP_setProtocol_def writeByte_as_array add.assoc length_Suc_conv)

lemmas IP_wire [wire] =
  ip_src.get_inside ip_src.set_inside ip_dst.get_inside ip_dst.set_inside
  ip_proto.get_inside ip_proto.set_inside

section \<open>The header length\<close>

definition ip_hlen :: "byte \<Rightarrow> int" where
  "ip_hlen b = 4 * max 5 (uint b mod 16)"

lemma byte_and_15: "uint ((b :: byte) AND 15) = uint b mod 16"
proof -
  have "(b :: byte) AND 15 = take_bit 4 b"
    by (simp add: take_bit_eq_mask mask_eq_exp_minus_1)
  then show ?thesis by (simp add: take_bit_eq_mod uint_mod)
qed

lemma IP_getNextOffset_inside:
  assumes "wf_packet p" and "0 \<le> off" and "off < writtenByte p"
  shows "IP_getNextOffset p off = Inr (off + ip_hlen (inMemory p ! nat off))"
proof -
  have "(b AND 15 < 5) = (uint b mod 16 < 5)" for b :: byte
    by (simp add: word_less_def byte_and_15)
  then show ?thesis
    using assms
    by (auto simp: IP_getNextOffset_def readByte_inside Let_def ip_hlen_def byte_and_15 max_def)
qed

text \<open>The header is between 20 and 60 bytes, whatever the frame holds; an unreadable length
  counts as the longest one.\<close>

lemma ip_hlen_range: "20 \<le> ip_hlen b" "ip_hlen b \<le> 60"
  by (auto simp: ip_hlen_def max_def)

lemma ip_hlen_20: "ip_hlen b = 20 \<longleftrightarrow> unat b mod 16 \<le> 5"
proof -
  have "uint b mod 16 = int (unat b mod 16)" by (simp add: zmod_int)
  then show ?thesis by (simp add: ip_hlen_def max_def)
qed

lemma IP_getNextOffset_outside: "writtenByte p \<le> off \<Longrightarrow> IP_getNextOffset p off = Inr (off + 60)"
  by (simp add: IP_getNextOffset_def Let_def)

end
