(* ===== verification/Checksum.thy ===== *)
theory Checksum
  imports Prelude
begin

text \<open>
  The Internet checksum: \<^verbatim>\<open>one_compl\<close> of \<^verbatim>\<open>gateway.cpp\<close>, whose loop and folding
  \<^verbatim>\<open>UDP::makePacket\<close> repeats inline. The lemmas relate the 32-bit accumulator and its two
  folding steps to the one's complement sum of RFC 1071, and show that a receiver who sums a
  block with the checksum in place gets all ones.
\<close>

section \<open>The code\<close>

text \<open>The summing loop; an odd byte at the end would be read together with the byte behind
  the object.\<close>

fun sum16 :: "u32 \<Rightarrow> byte list \<Rightarrow> u32 result" where
  "sum16 acc [] = Inr acc"
| "sum16 acc [b] = Inl OutOfBounds"
| "sum16 acc (a # b # bs) = sum16 (acc + ucast (ntohs (le16 [a, b]))) bs"

definition fold_sum :: "u32 \<Rightarrow> u16" where
  "fold_sum acc =
     (let acc = drop_bit 16 acc + (acc AND 0xFFFF);
          acc = acc + drop_bit 16 acc
      in ucast acc)"

definition one_compl :: "byte list \<Rightarrow> u16 result" where
  "one_compl start = mapR (\<lambda>acc. htons (NOT (fold_sum acc))) (sum16 0 start)"

section \<open>One's complement sums\<close>

fun words_sum :: "byte list \<Rightarrow> nat" where
  "words_sum (a # b # bs) = 256 * unat a + unat b + words_sum bs"
| "words_sum [a] = 256 * unat a"
| "words_sum [] = 0"

text \<open>The one's complement sum of a total: its residue modulo 65535, with 65535 for a non-zero
  multiple.\<close>

definition oc_sum :: "nat \<Rightarrow> nat" where
  "oc_sum n = (if n = 0 then 0 else Suc ((n - 1) mod 65535))"

lemma words_sum_append: "even (length xs) \<Longrightarrow> words_sum (xs @ ys) = words_sum xs + words_sum ys"
  by (induction xs rule: words_sum.induct) auto

lemma words_sum_bound: "words_sum bs \<le> 65535 * ((length bs + 1) div 2)"
proof (induction bs rule: words_sum.induct)
  case (1 a b bs)
  then show ?case using unat_byte_less [of a] unat_byte_less [of b] by simp
next
  case (2 a)
  then show ?case using unat_byte_less [of a] by simp
qed simp

lemma ucast_u16_of_nat: "ucast (w :: u16) = (of_nat (unat w) :: u32)"
  by simp

lemma sum16_even:
  "even (length bs) \<Longrightarrow> sum16 acc bs = Inr (acc + of_nat (words_sum bs))"
proof (induction acc bs rule: sum16.induct)
  case (3 acc a b bs)
  have "ucast (ntohs (le16 [a, b])) = (of_nat (256 * unat a + unat b) :: u32)"
    by (simp only: ucast_u16_of_nat unat_ntohs_le16)
  with 3 show ?case by (simp add: add.assoc del: le16.simps)
qed simp_all

lemma sum16_odd: "odd (length bs) \<Longrightarrow> sum16 acc bs = Inl OutOfBounds"
  by (induction acc bs rule: sum16.induct) auto

text \<open>Two folding steps are enough for every 32-bit accumulator.\<close>

lemma fold_nat:
  assumes "n < 2 ^ 32"
  shows "(n div 65536 + n mod 65536 + (n div 65536 + n mod 65536) div 65536) mod 65536 = oc_sum n"
proof -
  define q r where "q = n div 65536" and "r = n mod 65536"
  have n: "n = 65535 * q + (q + r)" and q: "q < 65536" and r: "r < 65536"
    using assms by (auto simp: q_def r_def)
  have "(q + r + (q + r) div 65536) mod 65536 = oc_sum n"
  proof (cases "q + r < 65536")
    case True
    show ?thesis
    proof (cases "q + r = 0")
      case False
      then have "n - 1 = 65535 * q + (q + r - 1)" using n by simp
      then have "(n - 1) mod 65535 = q + r - 1" using True by simp
      then show ?thesis using True False n by (simp add: oc_sum_def)
    qed (simp add: n oc_sum_def)
  next
    case False
    then have "n - 1 = 65535 * Suc q + (q + r - 65536)" using n by simp
    then have "(n - 1) mod 65535 = q + r - 65536" using q r by (simp only: mod_mult_self4) simp
    moreover have "(q + r) div 65536 = 1" using False q r by auto
    moreover have "(q + r + 1) mod 65536 = q + r + 1 - 65536"
      using False q r by (subst mod_if) auto
    moreover have "q + r + 1 - 65536 = Suc (q + r - 65536)" and "n \<noteq> 0" using False n by auto
    ultimately show ?thesis by (simp only: oc_sum_def if_False)
  qed
  then show ?thesis by (simp add: q_def r_def)
qed

lemma unat_fold_sum: "unat (fold_sum s) = oc_sum (unat s)"
proof -
  define n where "n = unat s"
  have n: "n < 2 ^ 32" using unsigned_less [of s, where ?'a = nat] by (simp add: n_def)
  have lo: "unat (s AND 0xFFFF) = n mod 65536"
  proof -
    have "s AND 0xFFFF = take_bit 16 s" by (simp add: take_bit_eq_mask mask_eq_exp_minus_1)
    then show ?thesis by (simp add: take_bit_eq_mod unat_mod n_def)
  qed
  have hi: "unat (drop_bit 16 s) = n div 65536"
    by (simp add: drop_bit_eq_div unat_div n_def)
  let ?t = "drop_bit 16 s + (s AND 0xFFFF)"
  have t: "unat ?t = n div 65536 + n mod 65536"
    using n by (simp add: unat_word_ariths lo hi)
  have t2: "unat (drop_bit 16 ?t) = (n div 65536 + n mod 65536) div 65536"
    by (subst drop_bit_eq_div, subst unat_div) (simp add: t)
  have "unat (?t + drop_bit 16 ?t) =
      n div 65536 + n mod 65536 + (n div 65536 + n mod 65536) div 65536"
    using n by (subst unat_word_ariths(1)) (simp only: t t2, subst mod_less, auto)
  then have "unat (fold_sum s) =
      (n div 65536 + n mod 65536 + (n div 65536 + n mod 65536) div 65536) mod 65536"
    by (simp add: fold_sum_def Let_def unsigned_ucast_eq take_bit_eq_mod)
  with fold_nat [OF n] show ?thesis by (simp add: n_def)
qed

section \<open>The checksum of a block\<close>

lemma unat_not_u16: "unat (NOT (w :: u16)) = 65535 - unat w"
proof -
  have "unat w < 2 ^ LENGTH(16)" by (rule unsigned_less)
  then have "w \<le> 65535" by (simp add: word_le_nat_alt)
  then have "unat (65535 - w) = 65535 - unat w" by (simp add: unat_sub)
  moreover have "NOT w = 65535 - w" by (simp add: not_eq_complement)
  ultimately show ?thesis by simp
qed

lemma oc_sum_le: "oc_sum n \<le> 65535"
  by (auto simp: oc_sum_def intro: Suc_leI)

lemma oc_sum_with_complement: "oc_sum (n + (65535 - oc_sum n)) = 65535"
proof (cases "n = 0")
  case False
  define k where "k = (n - 1) mod 65535"
  have k: "k < 65535" and n: "n = 65535 * ((n - 1) div 65535) + Suc k"
    using False by (simp_all add: k_def)
  have "oc_sum n = Suc k" using False by (simp add: oc_sum_def k_def)
  then have "n + (65535 - oc_sum n) - 1 = 65535 * ((n - 1) div 65535) + 65534"
    using k n by linarith
  then have "(n + (65535 - oc_sum n) - 1) mod 65535 = 65534"
    by (simp only: mod_mult_self4) simp
  then show ?thesis using False by (simp add: oc_sum_def)
qed (simp add: oc_sum_def)

lemma unat_sum: "words_sum bs < 2 ^ 32 \<Longrightarrow> unat (of_nat (words_sum bs) :: u32) = words_sum bs"
  by (simp add: unat_of_nat)

lemma words_sum_32: "length bs \<le> 131072 \<Longrightarrow> words_sum bs < 2 ^ 32"
  using words_sum_bound [of bs] by auto

lemma one_compl_even:
  assumes "even (length bs)"
  shows "one_compl bs = Inr (htons (NOT (fold_sum (of_nat (words_sum bs)))))"
  using assms by (simp add: one_compl_def sum16_even)

lemma words_sum_overwrite:
  assumes "even k" and "k + 2 \<le> length bs" and "segment k (k + 2) bs = [0, 0]"
  shows "words_sum (overwrite k [a, b] bs) = words_sum bs + 256 * unat a + unat b"
proof -
  have bs: "bs = take k bs @ [0, 0] @ drop (k + 2) bs"
    using assms(3) by (metis add_diff_cancel_left' append_take_drop_id drop_drop segment_def add.commute)
  have "words_sum bs = words_sum (take k bs) + words_sum (drop (k + 2) bs)"
    using assms by (subst bs) (simp add: words_sum_append min_def)
  then show ?thesis
    using assms by (simp add: overwrite_def words_sum_append min_def)
qed

lemma sum_with_checksum:
  assumes "words_sum bs < 2 ^ 32 - 65536"
    and "unat c = 256 * unat a + unat b" and "c = NOT (fold_sum (of_nat (words_sum bs)))"
  shows "fold_sum (of_nat (words_sum bs + 256 * unat a + unat b)) = 0xFFFF"
proof -
  let ?n = "words_sum bs"
  have c: "unat c = 65535 - oc_sum ?n"
    using assms(1,3) by (simp add: unat_not_u16 unat_fold_sum unat_sum)
  have n': "?n + 256 * unat a + unat b = ?n + (65535 - oc_sum ?n)"
    using c assms(2) by simp
  moreover have "\<dots> < 2 ^ 32" using assms(1) by simp
  ultimately have "unat (of_nat (?n + 256 * unat a + unat b) :: u32) = ?n + (65535 - oc_sum ?n)"
    by (simp only: unat_of_nat) simp
  then have "unat (fold_sum (of_nat (?n + 256 * unat a + unat b))) = 65535"
    by (simp only: unat_fold_sum oc_sum_with_complement)
  then show ?thesis by (simp add: word_unat_eq_iff)
qed

lemma unat_u16_bytes: "unat (w :: u16) = 256 * unat (ucast (drop_bit 8 w) :: byte) + unat (ucast w :: byte)"
proof -
  have "ntohs (le16 (bytes16 (htons w))) = w" by simp
  then show ?thesis by (metis bytes16_htons unat_ntohs_le16)
qed

lemma one_compl_verifies:
  assumes "even (length bs)" and "length bs \<le> 131068"
    and "even k" and "k + 2 \<le> length bs" and "segment k (k + 2) bs = [0, 0]"
    and "one_compl bs = Inr c"
  shows "one_compl (overwrite k (bytes16 c) bs) = Inr 0"
proof -
  define w where "w = NOT (fold_sum (of_nat (words_sum bs)))"
  let ?a = "ucast (drop_bit 8 w) :: byte" and ?b = "ucast w :: byte"
  have c: "bytes16 c = [?a, ?b]"
    using assms(1,6) by (auto simp: one_compl_even w_def bytes16_htons)
  have "words_sum bs < 2 ^ 32 - 65536"
    using words_sum_bound [of bs] assms(2) by auto
  then have "fold_sum (of_nat (words_sum bs + 256 * unat ?a + unat ?b)) = 0xFFFF"
    by (rule sum_with_checksum) (simp_all only: w_def unat_u16_bytes [of w, unfolded w_def])
  then show ?thesis
    using assms by (simp add: c one_compl_even words_sum_overwrite htons_def)
qed

text \<open>
  The checksum that \<^verbatim>\<open>one_compl\<close> computes for a block whose checksum field is zero makes the
  block verify: with the checksum written into its field, the same computation over the block
  gives zero. This holds for every even-sized block of up to 131068 bytes and every even position
  of the field, so neither the 32-bit accumulator nor the two folding steps lose a carry.
\<close>

theorem one_compl_receiver_accepts:
  assumes "even (length bs)" and "length bs \<le> 131068"
    and "even k" and "k + 2 \<le> length bs" and "segment k (k + 2) bs = [0, 0]"
    and "one_compl bs = Inr c"
  shows "one_compl (overwrite k (bytes16 c) bs) = Inr 0"
  using assms by (rule one_compl_verifies)

theorem one_compl_receiver_accepts_witness:
  "one_compl [0x45, 0, 0, 0x1C, 0xFF, 0xFF, 0, 0] = Inr 0xE3BA \<and>
   one_compl (overwrite 6 (bytes16 0xE3BA) [0x45, 0, 0, 0x1C, 0xFF, 0xFF, 0, 0]) = Inr 0"
proof -
  have c: "one_compl [0x45, 0, 0, 0x1C, 0xFF, 0xFF, 0, 0] = Inr 0xE3BA"
    by (simp add: one_compl_def fold_sum_def ntohs_def htons_def Let_def)
  have "one_compl (overwrite 6 (bytes16 0xE3BA) [0x45, 0, 0, 0x1C, 0xFF, 0xFF, 0, 0]) = Inr 0"
    by (rule one_compl_receiver_accepts [OF _ _ _ _ _ c]) (simp_all add: segment_def)
  with c show ?thesis by simp
qed

end
