(* ===== verification/UDP.thy ===== *)
theory UDP
  imports Ethernet IPv4 Checksum
begin

text \<open>
  The class of \<^verbatim>\<open>udp.cpp\<close>: the ports of a UDP header, and \<^verbatim>\<open>makePacket\<close>, which builds a
  complete Ethernet/IPv4/UDP frame with both checksums around a payload. The lemmas give the
  frame byte for byte.
\<close>

section \<open>Header fields\<close>

definition UDP_getSource :: "packet \<Rightarrow> int \<Rightarrow> u16 result" where
  "UDP_getSource p offset = mapR ntohs (into_uninit le16 (readByteArray p (offset + 0) (offset + 2)))"

definition UDP_getDestination :: "packet \<Rightarrow> int \<Rightarrow> u16 result" where
  "UDP_getDestination p offset =
     mapR ntohs (into_uninit le16 (readByteArray p (offset + 2) (offset + 4)))"

definition UDP_setSource :: "packet \<Rightarrow> int \<Rightarrow> u16 \<Rightarrow> packet result" where
  "UDP_setSource p offset src =
     (let tmp = htons src in writeByteArray p (offset + 0) (offset + 2) (bytes16 tmp))"

definition UDP_setDestination :: "packet \<Rightarrow> int \<Rightarrow> u16 \<Rightarrow> packet result" where
  "UDP_setDestination p offset dest =
     (let tmp = htons dest in writeByteArray p (offset + 2) (offset + 4) (bytes16 tmp))"

definition UDP_getNextOffset :: "int \<Rightarrow> int" where
  "UDP_getNextOffset offset = offset + sizeof_udphdr"

definition totalHeaderLen :: int where [sizes]:
  "totalHeaderLen = sizeof_ether_header + sizeof_ip + sizeof_udphdr"

section \<open>Building a frame\<close>

text \<open>\<^verbatim>\<open>struct ip\<close> with its object representation, and the pseudo header of the UDP checksum.
  Multi-byte fields hold the value in memory order, as in C.\<close>

record ip_hdr =
  ip_hl :: byte
  ip_v :: byte
  ip_tos :: byte
  ip_len :: u16
  ip_id :: u16
  ip_off :: u16
  ip_ttl :: byte
  ip_p :: byte
  ip_sum :: u16
  ip_src :: in_addr
  ip_dst :: in_addr

definition ip_bytes :: "ip_hdr \<Rightarrow> byte list" where
  "ip_bytes h = [ip_hl h OR push_bit 4 (ip_v h), ip_tos h] @ bytes16 (ip_len h) @ bytes16 (ip_id h) @
     bytes16 (ip_off h) @ [ip_ttl h, ip_p h] @ bytes16 (ip_sum h) @ in_addr_bytes (ip_src h) @
     in_addr_bytes (ip_dst h)"

record pseudoheader =
  ph_src :: in_addr
  ph_dst :: in_addr
  ph_zero :: byte
  ph_proto :: byte
  ph_tot_len :: u16

definition pseudo_bytes :: "pseudoheader \<Rightarrow> byte list" where
  "pseudo_bytes h = in_addr_bytes (ph_src h) @ in_addr_bytes (ph_dst h) @ [ph_zero h, ph_proto h] @
     bytes16 (ph_tot_len h)"

text \<open>The checksum loop over the packet; \<open>temp\<close> keeps its value where a read is skipped.\<close>

function udp_sum :: "packet \<Rightarrow> int \<Rightarrow> int \<Rightarrow> u16 \<Rightarrow> u32 \<Rightarrow> u32 result" where
  "udp_sum p current len temp acc =
     (if current < len then
        bindR (if current + 1 = len then mapR (\<lambda>b. push_bit 8 (word_of_int b)) (readByte p current)
               else mapR ntohs (into_init le16 temp (readByteArray p current (current + 2))))
          (\<lambda>temp. udp_sum p (current + 2) len temp (acc + ucast temp))
      else Inr acc)"
  by pat_completeness auto
termination
  by (relation "measure (\<lambda>(p, current, len, temp, acc). nat (len - current))") auto

declare udp_sum.simps [simp del]

definition makePacket_ip :: "in_addr \<Rightarrow> in_addr \<Rightarrow> nat \<Rightarrow> ip_hdr" where
  "makePacket_ip src dst data_len =
     \<lparr>ip_hl = 5, ip_v = 4, ip_tos = 0,
      ip_len = htons (word_of_int (sizeof_ip + sizeof_udphdr + int data_len)),
      ip_id = 0, ip_off = htons IP_DF, ip_ttl = 64, ip_p = IPPROTO_UDP, ip_sum = 0,
      ip_src = src, ip_dst = dst\<rparr>"

text \<open>\<^verbatim>\<open>len\<close> and \<^verbatim>\<open>data_len\<close> are \<^verbatim>\<open>int\<close>s in the code. Their sum is exact here, and in the
  code too for every frame that fits the buffer, which is what the properties ask for.\<close>

definition makePacket ::
  "packet \<Rightarrow> ether_addr \<Rightarrow> ether_addr \<Rightarrow> in_addr \<Rightarrow> in_addr \<Rightarrow> u16 \<Rightarrow> u16 \<Rightarrow> byte list \<Rightarrow> nat
     \<Rightarrow> (int \<times> packet) result" where
  "makePacket packet ether_src ether_dst src_ip dst_ip p_src p_dst data data_len =
     (let len = totalHeaderLen + int data_len
      in if len > getCapacity packet then Inr (-1, packet)
      else
        let offset = 0 in
        bindR (Ethernet_setSource packet offset ether_src) (\<lambda>packet.
        bindR (Ethernet_setDestination packet offset ether_dst) (\<lambda>packet.
        bindR (Ethernet_setProtocol packet offset ETHERTYPE_IP) (\<lambda>packet.
        let iphdr = Ethernet_getNextOffset offset;
            thdr = makePacket_ip src_ip dst_ip data_len in
        bindR (sum16 0 (ip_bytes thdr)) (\<lambda>acc.
        let thdr = thdr\<lparr>ip_sum := htons (NOT (fold_sum acc))\<rparr> in
        bindR (writeByteArray packet iphdr (iphdr + sizeof_ip) (ip_bytes thdr)) (\<lambda>packet.
        let udphdr = iphdr + sizeof_ip in
        bindR (IP_getSource packet iphdr) (\<lambda>src.
        bindR (IP_getDestination packet iphdr) (\<lambda>dst.
        let pheader = \<lparr>ph_src = src, ph_dst = dst, ph_zero = 0, ph_proto = IPPROTO_UDP,
              ph_tot_len = htons (word_of_int (sizeof_udphdr + int data_len))\<rparr> in
        bindR (UDP_setSource packet udphdr p_src) (\<lambda>packet.
        bindR (UDP_setDestination packet udphdr p_dst) (\<lambda>packet.
        let udp_len = (ucast (htons (word_of_int (sizeof_udphdr + int data_len))) :: u32) in
        bindR (writeByteArray packet (udphdr + 4) (udphdr + 6) (bytes32 udp_len)) (\<lambda>packet.
        bindR (writeByte packet (udphdr + 6) 0) (\<lambda>packet.
        bindR (writeByte packet (udphdr + 7) 0) (\<lambda>packet.
        let offset = UDP_getNextOffset udphdr in
        bindR (writeByteArray packet offset (offset + int data_len) data) (\<lambda>packet.
        bindR (sum16 0 (pseudo_bytes pheader)) (\<lambda>acc.
        bindR (udp_sum packet (offset - sizeof_udphdr) len 0 acc) (\<lambda>acc.
        let temp = htons (NOT (fold_sum acc)) in
        bindR (writeByteArray packet (offset - 2) offset (bytes16 temp)) (\<lambda>packet.
        Inr (len, packet))))))))))))))))))"

section \<open>The ports satisfy the field interface\<close>

lemma UDP_offset [simp]: "UDP_getNextOffset off = off + 8"
  by (simp add: UDP_getNextOffset_def sizes)

lemma UDP_get_reads:
  "UDP_getSource p off = into_uninit (\<lambda>bs. ntohs (le16 bs)) (readByteArray p off (off + 2))"
  "UDP_getDestination p off =
     into_uninit (\<lambda>bs. ntohs (le16 bs)) (readByteArray p (off + 2) (off + 4))"
  by (simp_all add: UDP_getSource_def UDP_getDestination_def mapR_into_uninit)

interpretation udp_src: packet_field UDP_getSource UDP_setSource 0 2
  "\<lambda>v. bytes16 (htons v)" "\<lambda>bs. ntohs (le16 bs)" "Inl Uninitialised"
  by unfold_locales
    (auto simp: UDP_get_reads UDP_setSource_def into_uninit_def bytes16_le16_list)

interpretation udp_dst: packet_field UDP_getDestination UDP_setDestination 2 4
  "\<lambda>v. bytes16 (htons v)" "\<lambda>bs. ntohs (le16 bs)" "Inl Uninitialised"
  by unfold_locales
    (auto simp: UDP_get_reads UDP_setDestination_def into_uninit_def bytes16_le16_list)

lemmas UDP_wire [wire] =
  udp_src.get_inside udp_src.set_inside udp_dst.get_inside udp_dst.set_inside

section \<open>The checksum loop\<close>

lemma unat_high_byte: "unat (push_bit 8 (ucast (b :: byte)) :: u16) = 256 * unat b"
proof -
  have "push_bit 8 (ucast b :: u16) = ntohs (le16 [b, 0])"
    by (rule bit_word_eqI) (auto simp: ntohs_def bit_simps not_bit_byte)
  then show ?thesis by (simp only: unat_ntohs_le16) simp
qed

lemma udp_sum_words:
  assumes "wf_packet p" and "0 \<le> current" and "current \<le> len" and "len \<le> writtenByte p"
  shows "udp_sum p current len temp acc =
    Inr (acc + of_nat (words_sum (segment (nat current) (nat len) (inMemory p))))"
  using assms
proof (induction p current len temp acc rule: udp_sum.induct)
  case (1 p current len temp acc)
  let ?M = "inMemory p" and ?c = "nat current"
  have bound: "nat len \<le> length ?M" using "1.prems" by (auto simp: wf_packet_def)
  consider "current = len" | "current + 1 = len" | "current + 2 \<le> len" using "1.prems" by linarith
  then show ?case
  proof cases
    case 1
    then show ?thesis by (simp add: udp_sum.simps)
  next
    case 2
    then have "nat len = Suc ?c" using "1.prems" by auto
    then have seg: "segment ?c (nat len) ?M = [?M ! ?c]" using bound by (simp add: segment_one)
    have "ucast (push_bit 8 (ucast (?M ! ?c)) :: u16) = (of_nat (256 * unat (?M ! ?c)) :: u32)"
      by (simp only: ucast_u16_of_nat unat_high_byte)
    with 2 "1.prems" seg show ?thesis
      by (simp add: udp_sum.simps [of p current] udp_sum.simps [of p "current + 2"] readByte_inside)
  next
    case 3
    let ?a = "?M ! ?c" and ?b = "?M ! Suc ?c"
    have c2: "nat (current + 2) = Suc (Suc ?c)" using "1.prems" by auto
    have seg: "segment ?c (nat len) ?M = ?a # ?b # segment (Suc (Suc ?c)) (nat len) ?M"
      using 3 "1.prems" bound by (simp add: segment_Cons)
    have two: "segment ?c (Suc (Suc ?c)) ?M = [?a, ?b]"
      using 3 "1.prems" bound by (simp add: segment_Cons)
    have rd: "readByteArray p current (current + 2) = Inr (Some [?a, ?b])"
      using 3 "1.prems" by (simp add: readByteArray_inside c2 two)
    have word: "ucast (ntohs (le16 [?a, ?b])) = (of_nat (256 * unat ?a + unat ?b) :: u32)"
      by (simp only: ucast_u16_of_nat unat_ntohs_le16)
    have "udp_sum p current len temp acc =
        udp_sum p (current + 2) len (ntohs (le16 [?a, ?b])) (acc + ucast (ntohs (le16 [?a, ?b])))"
      using 3 by (subst udp_sum.simps) (simp add: rd into_init_def del: le16.simps)
    also have "\<dots> = Inr (acc + ucast (ntohs (le16 [?a, ?b])) +
        of_nat (words_sum (segment (nat (current + 2)) (nat len) ?M)))"
      using 3 "1.prems" by (intro "1.IH") (auto simp: rd into_init_def simp del: le16.simps)
    finally show ?thesis by (simp only: word seg c2 words_sum.simps) (simp add: add.assoc)
  qed
qed

section \<open>The frame that makePacket builds\<close>

definition udp_header :: "u16 \<Rightarrow> u16 \<Rightarrow> nat \<Rightarrow> u16 \<Rightarrow> byte list" where
  "udp_header sport dport n csum = bytes16 (htons sport) @ bytes16 (htons dport) @
     bytes16 (htons (of_nat (8 + n))) @ bytes16 (htons csum)"

definition udp_checksum :: "in_addr \<Rightarrow> in_addr \<Rightarrow> u16 \<Rightarrow> u16 \<Rightarrow> byte list \<Rightarrow> u16" where
  "udp_checksum src dst sport dport data =
     NOT (fold_sum (of_nat (words_sum
       (in_addr_bytes src @ in_addr_bytes dst @ [0, 17] @ bytes16 (htons (of_nat (8 + length data))) @
        udp_header sport dport (length data) 0 @ data))))"

definition ip_header :: "in_addr \<Rightarrow> in_addr \<Rightarrow> nat \<Rightarrow> byte list" where
  "ip_header src dst n =
     (let h = makePacket_ip src dst n
      in ip_bytes (h\<lparr>ip_sum := htons (NOT (fold_sum (of_nat (words_sum (ip_bytes h)))))\<rparr>))"

definition udp_frame ::
  "ether_addr \<Rightarrow> ether_addr \<Rightarrow> in_addr \<Rightarrow> in_addr \<Rightarrow> u16 \<Rightarrow> u16 \<Rightarrow> byte list \<Rightarrow> byte list" where
  "udp_frame ether_src ether_dst src dst sport dport data =
     octets ether_dst @ octets ether_src @ [8, 0] @ ip_header src dst (length data) @
     udp_header sport dport (length data) (udp_checksum src dst sport dport data) @ data"

lemma length_ip_bytes [simp]: "length (ip_bytes h) = 20"
  by (simp add: ip_bytes_def)

lemma length_ip_header [simp]: "length (ip_header src dst n) = 20"
  by (simp add: ip_header_def Let_def)

lemma length_udp_header [simp]: "length (udp_header sport dport n c) = 8"
  by (simp add: udp_header_def)

lemma length_udp_frame [simp]: "length (udp_frame es ed s d sp dp data) = 42 + length data"
  by (simp add: udp_frame_def)

lemma length_pseudo_bytes [simp]: "length (pseudo_bytes h) = 12"
  by (simp add: pseudo_bytes_def)

lemma take_bytes32: "take 2 (bytes32 (ucast w)) = bytes16 w"
  by (auto simp: bytes32_def bytes16_def intro!: bit_word_eqI simp: bit_simps)

lemma proto_ip_bytes: "bytes16 (htons ETHERTYPE_IP) = [8, 0]"
  by (simp add: bytes16_htons sizes)


lemma udp_len_bytes:
  "writeByteArray p from (from + 2) (bytes32 (ucast w)) = writeByteArray p from (from + 2) (bytes16 w)"
  by (simp add: writeByteArray_def copy_in_def take_bytes32)

lemma ip_header_addresses:
  "segment 12 16 (ip_header s d n) = in_addr_bytes s" "segment 16 20 (ip_header s d n) = in_addr_bytes d"
  by (simp_all add: ip_header_def ip_bytes_def makePacket_ip_def Let_def segment_def bytes16_def)

lemma word_of_int_nat: "(word_of_int (8 + int n) :: u16) = of_nat (8 + n)"
  by simp

lemma ip_header_code:
  "sum16 0 (ip_bytes (makePacket_ip s d n)) = Inr (of_nat (words_sum (ip_bytes (makePacket_ip s d n))))"
  "ip_bytes (makePacket_ip s d n\<lparr>ip_sum := htons (NOT (fold_sum (of_nat (words_sum (ip_bytes (makePacket_ip s d n))))))\<rparr>) = ip_header s d n"
  by (simp_all add: sum16_even ip_header_def Let_def)

lemma udp_checksum_code:
  assumes "n = length data" and "ph = \<lparr>ph_src = s, ph_dst = d, ph_zero = 0, ph_proto = 17, ph_tot_len = htons (of_nat (8 + n))\<rparr>"
  shows "sum16 0 (pseudo_bytes ph) = Inr (of_nat (words_sum (pseudo_bytes ph)))"
    and "NOT (fold_sum (of_nat (words_sum (pseudo_bytes ph)) + of_nat (words_sum (udp_header sp dp n 0 @ data)))) =
      udp_checksum s d sp dp data"
proof -
  show "sum16 0 (pseudo_bytes ph) = Inr (of_nat (words_sum (pseudo_bytes ph)))"
    by (simp add: sum16_even)
  have "words_sum (pseudo_bytes ph @ udp_header sp dp n 0 @ data) =
      words_sum (pseudo_bytes ph) + words_sum (udp_header sp dp n 0 @ data)"
    by (rule words_sum_append) simp
  then show "NOT (fold_sum (of_nat (words_sum (pseudo_bytes ph)) + of_nat (words_sum (udp_header sp dp n 0 @ data)))) =
      udp_checksum s d sp dp data"
    using assms by (simp add: udp_checksum_def pseudo_bytes_def)
qed

lemma htons_0 [simp]: "htons 0 = 0"
  by (simp add: htons_def)

lemma bytes16_0: "bytes16 0 = [0, 0]"
  by (simp add: bytes16_def)

text \<open>The three stages of the construction, each as one step on the written prefix.\<close>

lemma makePacket_ethernet_stage:
  assumes "wf_packet p" and "14 \<le> writtenByte p"
  shows "bindR (Ethernet_setSource p 0 es) (\<lambda>p. bindR (Ethernet_setDestination p 0 ed) (\<lambda>p.
      bindR (Ethernet_setProtocol p 0 2048) k)) = k (written p 0 (octets ed @ octets es @ [8, 0]))"
proof -
  have "Ethernet_setSource p 0 es = Inr (written p (0 + length (octets ed)) (octets es))"
    using assms by (simp add: Ethernet_setSource_def sizes write_first)
  moreover have "Ethernet_setDestination (written p (0 + length (octets ed)) (octets es)) 0 ed =
      Inr (written p 0 (octets ed @ octets es))"
    unfolding Ethernet_setDestination_def sizes using assms by (intro write_before) simp_all
  moreover have "Ethernet_setProtocol (written p 0 (octets ed @ octets es)) 0 2048 =
      Inr (written p 0 ((octets ed @ octets es) @ [8, 0]))"
    unfolding Ethernet_setProtocol_def Let_def proto_ip_bytes [unfolded sizes]
    using assms by (intro write_next) (simp_all add: sizes)
  ultimately show ?thesis by simp
qed

lemma makePacket_ip_stage:
  assumes "wf_packet p" and "34 \<le> writtenByte p" and "length w = 14"
  shows "bindR (writeByteArray (written p 0 w) 14 34 (ip_header s d n)) (\<lambda>p.
      bindR (IP_getSource p 14) (\<lambda>s'. bindR (IP_getDestination p 14) (k p s'))) =
    k (written p 0 (w @ ip_header s d n)) s d"
proof -
  let ?w = "w @ ip_header s d n"
  have "writeByteArray (written p 0 w) 14 34 (ip_header s d n) = Inr (written p 0 ?w)"
    using assms by (intro write_next) simp_all
  moreover have "wf_packet (written p 0 ?w)" using assms by (intro wf_written) simp_all
  moreover have "segment 26 30 (overwrite 0 ?w (inMemory p)) = in_addr_bytes s"
    "segment 30 34 (overwrite 0 ?w (inMemory p)) = in_addr_bytes d"
    using assms segment_overwrite_within [of 30 ?w 0 "inMemory p" 26]
      segment_overwrite_within [of 34 ?w 0 "inMemory p" 30]
    by (simp_all add: wf_packet_def segment_skip ip_header_addresses)
  ultimately show ?thesis
    using assms by (simp add: ip_src.get_inside ip_dst.get_inside)
qed

lemma makePacket_udp_stage:
  assumes "wf_packet p" and "42 + int n \<le> writtenByte p" and "length w = 34" and "n = length data"
  shows "bindR (UDP_setSource (written p 0 w) 34 sp) (\<lambda>p. bindR (UDP_setDestination p 34 dp) (\<lambda>p.
      bindR (writeByteArray p 38 40 (bytes32 (ucast (htons (8 + of_nat n))))) (\<lambda>p.
      bindR (writeByte p 40 0) (\<lambda>p. bindR (writeByte p 41 0) (\<lambda>p.
      bindR (writeByteArray p 42 (42 + int n) data) k))))) =
    k (written p 0 (w @ udp_header sp dp n 0 @ data))"
proof -
  let ?w1 = "w @ bytes16 (htons sp)"
  let ?w2 = "?w1 @ bytes16 (htons dp)"
  let ?w3 = "?w2 @ bytes16 (htons (8 + of_nat n))"
  have "UDP_setSource (written p 0 w) 34 sp = Inr (written p 0 ?w1)"
    unfolding UDP_setSource_def Let_def using assms by (intro write_next) simp_all
  moreover have "UDP_setDestination (written p 0 ?w1) 34 dp = Inr (written p 0 ?w2)"
    unfolding UDP_setDestination_def Let_def using assms by (intro write_next) simp_all
  moreover have "writeByteArray (written p 0 ?w2) 38 40 (bytes32 (ucast (htons (8 + of_nat n)))) =
      Inr (written p 0 ?w3)"
    unfolding udp_len_bytes [of _ 38, simplified] using assms by (intro write_next) simp_all
  moreover have "writeByte (written p 0 ?w3) 40 0 = Inr (written p 0 (?w3 @ [0]))"
    using assms by (intro write_next_byte) simp_all
  moreover have "writeByte (written p 0 (?w3 @ [0])) 41 0 = Inr (written p 0 ((?w3 @ [0]) @ [0]))"
    using assms by (intro write_next_byte) simp_all
  moreover have "writeByteArray (written p 0 ((?w3 @ [0]) @ [0])) 42 (42 + int n) data =
      Inr (written p 0 (((?w3 @ [0]) @ [0]) @ data))"
    using assms by (intro write_next) simp_all
  ultimately show ?thesis by (simp add: udp_header_def bytes16_0)
qed

lemma makePacket_checksum_stage:
  assumes "wf_packet p" and "42 + int n \<le> writtenByte p" and "length w = 34" and "n = length data"
  shows "udp_sum (written p 0 (w @ udp_header sp dp n 0 @ data)) 34 (42 + int n) 0 acc =
      Inr (acc + of_nat (words_sum (udp_header sp dp n 0 @ data)))"
    and "writeByteArray (written p 0 (w @ udp_header sp dp n 0 @ data)) 40 42 (bytes16 (htons c)) =
      Inr (written p 0 (w @ udp_header sp dp n c @ data))"
proof -
  let ?w = "w @ udp_header sp dp n 0 @ data"
  have "segment 34 (42 + n) (overwrite 0 ?w (inMemory p)) = udp_header sp dp n 0 @ data"
    using assms segment_overwrite_within [of "42 + n" ?w 0 "inMemory p" 34]
    by (simp add: wf_packet_def segment_skip)
  then show "udp_sum (written p 0 ?w) 34 (42 + int n) 0 acc =
      Inr (acc + of_nat (words_sum (udp_header sp dp n 0 @ data)))"
    using assms by (subst udp_sum_words) (simp_all add: wf_written nat_add_distrib)
  have "overwrite 40 (bytes16 (htons c)) ?w = w @ udp_header sp dp n c @ data"
    using assms by (simp add: overwrite_skip udp_header_def overwrite_def)
  moreover have "writeByteArray (written p 0 ?w) 40 42 (bytes16 (htons c)) =
      Inr (written p 0 (overwrite 40 (bytes16 (htons c)) ?w))"
    using assms by (intro write_within) simp_all
  ultimately show "writeByteArray (written p 0 ?w) 40 42 (bytes16 (htons c)) =
      Inr (written p 0 (w @ udp_header sp dp n c @ data))"
    by simp
qed

lemma makePacket_layout:
  assumes wf: "wf_packet p" and fits: "42 + int n \<le> writtenByte p" and data: "n = length data"
  shows "makePacket p es ed s d sp dp data n =
    Inr (42 + int n, written p 0 (udp_frame es ed s d sp dp data))"
proof -
  let ?w = "(octets ed @ octets es @ [8, 0]) @ ip_header s d n"
  have cap: "42 + int n \<le> capacity p" using wf fits by (simp add: wf_packet_def)
  note stages = makePacket_ethernet_stage [OF wf] ip_header_code makePacket_ip_stage [OF wf]
    makePacket_udp_stage [OF wf fits _ data, of ?w] udp_checksum_code [OF data refl]
    makePacket_checksum_stage [OF wf fits _ data, of ?w]
  show ?thesis
    unfolding makePacket_def Let_def sizes
    using cap fits by (simp add: getCapacity_def stages [simplified] udp_frame_def data [symmetric])
qed

lemma writeByteArray_take:
  "to = from + int n \<Longrightarrow> n \<le> length d \<Longrightarrow>
   writeByteArray p from to d = writeByteArray p from to (take n d)"
  by (simp add: writeByteArray_def copy_in_def)

lemma makePacket_take:
  "n \<le> length data \<Longrightarrow>
   makePacket p es ed s d sp dp data n = makePacket p es ed s d sp dp (take n data) n"
  by (simp add: makePacket_def Let_def writeByteArray_take [of "_ + int n" _ n data])

lemma makePacket_builds:
  assumes "wf_packet p" and "42 + int n \<le> writtenByte p" and "n \<le> length data"
  shows "makePacket p es ed s d sp dp data n =
    Inr (42 + int n, written p 0 (udp_frame es ed s d sp dp (take n data)))"
  using assms makePacket_layout [of p n "take n data"] by (simp add: makePacket_take [of n data])

lemma makePacket_too_long:
  "capacity p < 42 + int n \<Longrightarrow> makePacket p es ed s d sp dp data n = Inr (-1, p)"
  by (simp add: makePacket_def getCapacity_def sizes)

section \<open>Both checksums verify\<close>

lemma ip_header_verifies: "one_compl (ip_header s d n) = Inr 0"
proof -
  let ?h = "makePacket_ip s d n"
  let ?c = "htons (NOT (fold_sum (of_nat (words_sum (ip_bytes ?h)))))"
  have "one_compl (ip_bytes ?h) = Inr ?c" by (rule one_compl_even) simp
  moreover have "segment 10 (10 + 2) (ip_bytes ?h) = [0, 0]"
    by (simp add: ip_bytes_def makePacket_ip_def segment_def bytes16_def)
  ultimately have "one_compl (overwrite 10 (bytes16 ?c) (ip_bytes ?h)) = Inr 0"
    by (intro one_compl_verifies) simp_all
  moreover have "overwrite 10 (bytes16 ?c) (ip_bytes ?h) = ip_header s d n"
    by (simp add: ip_header_def Let_def ip_bytes_def makePacket_ip_def overwrite_def bytes16_def)
  ultimately show ?thesis by simp
qed

definition pseudo_block :: "in_addr \<Rightarrow> in_addr \<Rightarrow> nat \<Rightarrow> byte list" where
  "pseudo_block s d n = in_addr_bytes s @ in_addr_bytes d @ [0, 17] @ bytes16 (htons (of_nat (8 + n)))"

lemma length_pseudo_block [simp]: "length (pseudo_block s d n) = 12"
  by (simp add: pseudo_block_def)

lemma udp_segment_verifies:
  assumes "length data \<le> 65507" and "c = udp_checksum s d sp dp data"
  shows "fold_sum (of_nat (words_sum
    (pseudo_block s d (length data) @ udp_header sp dp (length data) c @ data))) = 0xFFFF"
proof -
  let ?n = "length data"
  let ?bs = "pseudo_block s d ?n @ udp_header sp dp ?n 0 @ data"
  let ?a = "ucast (drop_bit 8 c) :: byte" and ?b = "ucast c :: byte"
  have c: "c = NOT (fold_sum (of_nat (words_sum ?bs)))"
    using assms(2) by (simp add: udp_checksum_def pseudo_block_def)
  have "words_sum ?bs < 2 ^ 32 - 65536"
    using words_sum_bound [of ?bs] assms(1) by auto
  then have sum_ok: "fold_sum (of_nat (words_sum ?bs + 256 * unat ?a + unat ?b)) = 0xFFFF"
    using unat_u16_bytes c by (rule sum_with_checksum)
  have "segment 18 (18 + 2) ?bs = [0, 0]"
    by (simp add: segment_skip udp_header_def bytes16_0 segment_def)
  then have "words_sum (overwrite 18 [?a, ?b] ?bs) = words_sum ?bs + 256 * unat ?a + unat ?b"
    by (intro words_sum_overwrite) simp_all
  moreover have "overwrite 18 [?a, ?b] ?bs = pseudo_block s d ?n @ udp_header sp dp ?n c @ data"
    by (simp add: overwrite_skip udp_header_def bytes16_htons [of c] bytes16_0 overwrite_def)
  ultimately show ?thesis using sum_ok by simp
qed

section \<open>Properties\<close>

text \<open>
  C22: \<^verbatim>\<open>makePacket\<close> builds the complete frame: called on a buffer that has room for the 42
  header bytes and the payload, it returns the frame length and leaves in the buffer exactly the
  Ethernet header, the IPv4 header, the UDP header and the payload, in this order, with every
  other byte of the buffer unchanged.
\<close>

theorem makePacket_frame:
  assumes "wf_packet p" and "42 + int n \<le> writtenByte p" and "n \<le> length data"
  shows "\<exists>q. makePacket p es ed s d sp dp data n = Inr (42 + int n, q) \<and>
    inMemory q = udp_frame es ed s d sp dp (take n data) @ drop (42 + n) (inMemory p) \<and>
    writtenByte q = writtenByte p \<and> wf_packet q"
  using assms by (auto simp: makePacket_builds overwrite_0 intro!: wf_written)

definition sample_packet :: packet where
  "sample_packet = \<lparr>writtenByte = 60, capacity = 60, inMemory = replicate 60 0xEE\<rparr>"

theorem makePacket_frame_witness:
  "\<exists>q. makePacket sample_packet (EtherAddr 1 2 3 4 5 6) (EtherAddr 7 8 9 10 11 12)
      \<lparr>s_addr = 0x0100000A\<rparr> \<lparr>s_addr = 0x0200000A\<rparr> 67 68 [0xAB, 0xCD, 0xEF] 3 = Inr (45, q) \<and>
    inMemory q = udp_frame (EtherAddr 1 2 3 4 5 6) (EtherAddr 7 8 9 10 11 12)
      \<lparr>s_addr = 0x0100000A\<rparr> \<lparr>s_addr = 0x0200000A\<rparr> 67 68 [0xAB, 0xCD, 0xEF] @
      replicate 15 0xEE \<and> writtenByte q = 60 \<and> wf_packet q"
  using makePacket_frame [of sample_packet 3 "[0xAB, 0xCD, 0xEF]" "EtherAddr 1 2 3 4 5 6"
      "EtherAddr 7 8 9 10 11 12" "\<lparr>s_addr = 0x0100000A\<rparr>" "\<lparr>s_addr = 0x0200000A\<rparr>" 67 68]
  by (simp add: sample_packet_def wf_packet_def)

text \<open>
  C9: The frame of \<^verbatim>\<open>makePacket\<close> passes both checks of its receiver: the IPv4 header sums
  to zero under \<^verbatim>\<open>one_compl\<close>, and the UDP segment together with the pseudo header sums to all
  ones, for payloads of even and of odd length up to the largest UDP payload.
\<close>

theorem makePacket_checksums_valid:
  assumes "wf_packet p" and "42 + int n \<le> writtenByte p" and "n \<le> length data" and "n \<le> 65507"
    and "makePacket p es ed s d sp dp data n = Inr (len, q)"
  shows "one_compl (segment 14 34 (inMemory q)) = Inr 0 \<and>
    fold_sum (of_nat (words_sum (pseudo_block s d n @ segment 34 (42 + n) (inMemory q)))) = 0xFFFF"
proof
  let ?d = "take n data"
  let ?u = "udp_header sp dp n (udp_checksum s d sp dp ?d) @ ?d"
  have len: "length ?d = n" using assms(3) by simp
  have q: "inMemory q = (octets ed @ octets es @ [8, 0]) @ ip_header s d n @ ?u @
      drop (42 + n) (inMemory p)"
    using assms by (auto simp: makePacket_builds overwrite_0 udp_frame_def)
  have "segment 14 34 (inMemory q) = ip_header s d n"
    using segment_at [of "octets ed @ octets es @ [8, 0]" "ip_header s d n"] by (simp add: q)
  then show "one_compl (segment 14 34 (inMemory q)) = Inr 0" by (simp add: ip_header_verifies)
  have "segment 34 (42 + n) (inMemory q) = ?u"
    using segment_at [of "octets ed @ octets es @ [8, 0] @ ip_header s d n" ?u] assms(3)
    by (simp add: q add.commute)
  then show "fold_sum (of_nat (words_sum (pseudo_block s d n @ segment 34 (42 + n) (inMemory q)))) = 0xFFFF"
    using udp_segment_verifies [of ?d "udp_checksum s d sp dp ?d" s d sp dp] assms(4)
    unfolding len by simp
qed

theorem makePacket_checksums_valid_witness:
  "\<exists>q. makePacket sample_packet (EtherAddr 1 2 3 4 5 6) (EtherAddr 7 8 9 10 11 12)
      \<lparr>s_addr = 0x0100000A\<rparr> \<lparr>s_addr = 0x0200000A\<rparr> 67 68 [0xAB, 0xCD, 0xEF] 3 = Inr (45, q) \<and>
    one_compl (segment 14 34 (inMemory q)) = Inr 0 \<and>
    fold_sum (of_nat (words_sum (pseudo_block \<lparr>s_addr = 0x0100000A\<rparr> \<lparr>s_addr = 0x0200000A\<rparr> 3 @
      segment 34 45 (inMemory q)))) = 0xFFFF"
proof -
  have wf: "wf_packet sample_packet" and room: "42 + int 3 \<le> writtenByte sample_packet"
    and n: "3 \<le> length [0xAB, 0xCD, 0xEF :: byte]" and max: "(3 :: nat) \<le> 65507"
    by (simp_all add: sample_packet_def wf_packet_def)
  show ?thesis
    using makePacket_checksums_valid [OF wf room n max makePacket_builds [OF wf room n]]
      makePacket_builds [OF wf room n] by simp
qed

end
