(* ===== verification/Device.thy ===== *)
theory Device
  imports Packet
begin

text \<open>
  The raw packet socket of \<^verbatim>\<open>socket.cpp\<close>. The kernel is outside the program: what its system
  calls answer is an argument (the constructor's \<open>dev_env\<close>, the sequence \<open>rx\<close> of
  \<^verbatim>\<open>recvfrom\<close> results), and what is handed to it is recorded (the constructor's list of calls,
  the sequence \<open>tx\<close> of \<^verbatim>\<open>sendto\<close> calls).
\<close>

section \<open>Opening and closing\<close>

text \<open>The system calls of the constructor and destructor, and their answers: a negative value is
  a failure.\<close>

datatype dev_call = Call_socket int | Call_SIOCGIFFLAGS | Call_SIOCSIFFLAGS u16 | Call_SIOCSIFMTU int
  | Call_SIOCGIFMTU | Call_SIOCGIFINDEX | Call_getsockopt | Call_bind int | Call_close int

record dev_env =
  ret_socket :: int
  ret_gifflags :: int
  old_flags :: u16
  ret_sifflags :: int
  ret_sifmtu :: int
  ret_gifmtu :: int
  ret_gifindex :: int
  if_index :: int
  ret_bind :: int

text \<open>One answer of \<^verbatim>\<open>recvfrom\<close>: its return value (with \<^verbatim>\<open>MSG_TRUNC\<close> the full length of the
  frame), the bytes it stored, and the fields of the source address the code looks at. One call of
  \<^verbatim>\<open>sendto\<close>: the destination link-layer address and the bytes.\<close>

record recv_answer =
  ra_ret :: int
  ra_data :: "byte list"
  ra_len :: int
  ra_hatype :: u16
  ra_ifindex :: int
  ra_pkttype :: int

record send_call =
  sc_ifindex :: int
  sc_addr :: "byte list"
  sc_data :: "byte list"

record device =
  sock :: int
  devID :: int
  prevFlag :: u16
  devName :: string
  rx :: "recv_answer list"
  tx :: "send_call list"

definition MY_MTU :: int where [sizes]: "MY_MTU = ETH_DATA_LEN"
definition MY_PACKET_LEN :: int where [sizes]: "MY_PACKET_LEN = ETH_FRAME_LEN"
definition IFNAMSIZ :: nat where [sizes]: "IFNAMSIZ = 16"
definition sizeof_sockaddr_ll :: int where [sizes]: "sizeof_sockaddr_ll = 20"
definition PACKET_OUTGOING :: int where [sizes]: "PACKET_OUTGOING = 4"

text \<open>\<^verbatim>\<open>IFF_UP | IFF_BROADCAST | IFF_NOARP | IFF_NOTRAILERS | IFF_PROMISC\<close>\<close>

definition promisc_flags :: u16 where
  "promisc_flags = 0x1 OR 0x2 OR 0x80 OR 0x20 OR 0x100"

text \<open>The constructor: the calls it makes, and the device or the exit.\<close>

definition Device_new :: "dev_env \<Rightarrow> string \<Rightarrow> recv_answer list \<Rightarrow> dev_call list \<times> device result" where
  "Device_new env name rxs =
     (let s = ret_socket env; calls = [Call_socket s] in
      if s < 0 then (calls, Inl Exit) else
      let calls = calls @ [Call_SIOCGIFFLAGS] in
      if ret_gifflags env < 0 then (calls @ [Call_close s], Inl Exit) else
      let prev = old_flags env; calls = calls @ [Call_SIOCSIFFLAGS promisc_flags] in
      if ret_sifflags env < 0 then (calls @ [Call_close s], Inl Exit) else
      let calls = calls @ [Call_SIOCSIFMTU MY_MTU] in
      if ret_sifmtu env < 0 then (calls @ [Call_close s], Inl Exit) else
      let calls = calls @ [Call_SIOCGIFMTU] in
      if ret_gifmtu env < 0 then (calls @ [Call_close s], Inl Exit) else
      let calls = calls @ [Call_SIOCGIFINDEX] in
      if ret_gifindex env < 0 then (calls @ [Call_close s], Inl Exit) else
      let dev = if_index env; calls = calls @ [Call_getsockopt, Call_getsockopt, Call_bind dev] in
      if ret_bind env < 0 then (calls @ [Call_close s], Inl Exit) else
      (calls, Inr \<lparr>sock = s, devID = dev, prevFlag = prev, devName = take IFNAMSIZ name,
                    rx = rxs, tx = []\<rparr>))"

definition Device_delete :: "device \<Rightarrow> dev_call list \<times> device" where
  "Device_delete d =
     (if sock d > 0 then ([Call_SIOCSIFFLAGS (prevFlag d), Call_close (sock d)], d\<lparr>sock := -1\<rparr>)
      else ([], d))"

section \<open>Reading and writing frames\<close>

text \<open>The loop of \<^verbatim>\<open>readPacket\<close> over the answers of \<^verbatim>\<open>recvfrom\<close>; the buffer is overwritten by every
  successful answer, also by those that are skipped. With no answer left the non-blocking call
  fails.\<close>

fun readPacket_loop :: "int \<Rightarrow> recv_answer list \<Rightarrow> byte list \<Rightarrow> int \<times> byte list \<times> recv_answer list" where
  "readPacket_loop dev [] buffer = (-1, buffer, [])"
| "readPacket_loop dev (r # rs) buffer =
     (if ra_ret r < 0 then (ra_ret r, buffer, rs)
      else
        let buffer = overwrite 0 (ra_data r) buffer in
        if ra_hatype r \<noteq> ARPHRD_ETHER then readPacket_loop dev rs buffer
        else if ra_len r > sizeof_sockaddr_ll then readPacket_loop dev rs buffer
        else if ra_ifindex r \<noteq> dev then readPacket_loop dev rs buffer
        else if ra_pkttype r = PACKET_OUTGOING then readPacket_loop dev rs buffer
        else (ra_ret r, buffer, rs))"

definition readPacket :: "device \<Rightarrow> byte list \<Rightarrow> int \<times> byte list \<times> device" where
  "readPacket d buffer =
     (case readPacket_loop (devID d) (rx d) buffer of
        (n, buffer, rs) \<Rightarrow> (n, buffer, d\<lparr>rx := rs\<rparr>))"

definition writePacket :: "device \<Rightarrow> byte list \<Rightarrow> int \<Rightarrow> device result" where
  "writePacket d buffer len =
     bindR (copy_out buffer 0 ETH_ALEN) (\<lambda>addr.
     bindR (copy_out buffer 0 len) (\<lambda>data.
       Inr (d\<lparr>tx := tx d @ [\<lparr>sc_ifindex = devID d, sc_addr = addr, sc_data = data\<rparr>]\<rparr>)))"

section \<open>Sending a frame\<close>

text \<open>What stays of a device from its opening to its closing.\<close>

definition handle_of :: "device \<Rightarrow> int \<times> int \<times> u16 \<times> string" where
  "handle_of d = (sock d, devID d, prevFlag d, devName d)"

definition sent :: "device \<Rightarrow> byte list \<Rightarrow> device" where
  "sent d bs = d\<lparr>tx := tx d @ [\<lparr>sc_ifindex = devID d, sc_addr = take 6 bs, sc_data = bs\<rparr>]\<rparr>"

lemma handle_of_simps [simp]: "handle_of (d\<lparr>rx := r\<rparr>) = handle_of d" "handle_of (d\<lparr>tx := t\<rparr>) = handle_of d"
  "handle_of (sent d f) = handle_of d"
  by (simp_all add: handle_of_def sent_def)

text \<open>Writing a packet that holds at least an address sends its frame.\<close>

lemma writePacket_frame:
  assumes "wf_packet p" and "ETH_ALEN \<le> writtenByte p"
  shows "writePacket d (inMemory p) (getLength p) = Inr (sent d (frame p))"
  using assms by (simp add: writePacket_def copy_out_def wf_packet_def sizes getLength_def sent_def
      segment_def frame_def min_def)

section \<open>What the kernel promises of recvfrom\<close>

text \<open>An answer to a call with a buffer of \<open>n\<close> bytes: a failure stores nothing; a frame is
  stored up to the size of the buffer and its full length is returned.\<close>

definition recv_fits :: "nat \<Rightarrow> recv_answer \<Rightarrow> bool" where
  "recv_fits n r \<longleftrightarrow> ra_ret r = -1 \<or> 0 \<le> ra_ret r \<and> length (ra_data r) = min n (nat (ra_ret r))"

text \<open>A frame the code accepts: from this interface's wire.\<close>

definition accepted :: "int \<Rightarrow> recv_answer \<Rightarrow> bool" where
  "accepted dev r \<longleftrightarrow> ra_ret r < 0 \<or> ra_hatype r = ARPHRD_ETHER \<and> ra_len r \<le> sizeof_sockaddr_ll \<and>
     ra_ifindex r = dev \<and> ra_pkttype r \<noteq> PACKET_OUTGOING"

lemma readPacket_skip:
  "\<not> accepted dev r \<Longrightarrow>
   readPacket_loop dev (r # rs) buffer = readPacket_loop dev rs (overwrite 0 (ra_data r) buffer)"
  by (auto simp: accepted_def Let_def)

lemma readPacket_take:
  "accepted dev r \<Longrightarrow>
   readPacket_loop dev (r # rs) buffer =
     (ra_ret r, if ra_ret r < 0 then buffer else overwrite 0 (ra_data r) buffer, rs)"
  by (auto simp: accepted_def Let_def)

declare readPacket_loop.simps(2) [simp del]

lemma recv_fits_overwrite:
  "recv_fits (length buffer) r \<Longrightarrow> 0 \<le> ra_ret r \<Longrightarrow> length (overwrite 0 (ra_data r) buffer) = length buffer"
  by (auto simp: recv_fits_def)

lemma readPacket_loop_result:
  assumes "readPacket_loop dev rs buffer = (n, b, rest)" and "\<forall>r\<in>set rs. recv_fits (length buffer) r"
  shows "length b = length buffer \<and> (\<forall>r\<in>set rest. recv_fits (length buffer) r) \<and>
    (n = -1 \<or> 0 \<le> n \<and>
      (\<exists>skipped r. rs = skipped @ r # rest \<and> accepted dev r \<and> (\<forall>r'\<in>set skipped. \<not> accepted dev r') \<and>
        n = ra_ret r \<and> take (nat n) b = ra_data r))"
  using assms
proof (induction rs arbitrary: buffer)
  case (Cons r rs)
  have fits: "recv_fits (length buffer) r" using Cons.prems(2) by simp
  show ?case
  proof (cases "accepted dev r")
    case True
    then have res: "n = ra_ret r" "rest = rs"
        "b = (if ra_ret r < 0 then buffer else overwrite 0 (ra_data r) buffer)"
      using Cons.prems(1) by (auto simp: readPacket_take)
    have "take (nat n) b = ra_data r" if "0 \<le> n"
      using fits that res by (auto simp: recv_fits_def overwrite_def)
    then show ?thesis
      using res True fits Cons.prems(2) by (auto simp: recv_fits_def intro!: exI [of _ "[]"])
  next
    case False
    let ?b = "overwrite 0 (ra_data r) buffer"
    have len: "length ?b = length buffer"
      using False fits by (intro recv_fits_overwrite) (auto simp: accepted_def)
    have "readPacket_loop dev rs ?b = (n, b, rest)"
      using Cons.prems(1) readPacket_skip [OF False] by simp
    from Cons.IH [OF this] Cons.prems(2) False show ?thesis
      by (auto simp: len intro: exI [of _ "r # _"])
  qed
qed simp

lemma readPacket_loop_rest:
  "readPacket_loop dev rs buffer = (n, b, rest) \<Longrightarrow> set rest \<subseteq> set rs"
proof (induction rs arbitrary: buffer)
  case (Cons r rs)
  show ?case
  proof (cases "accepted dev r")
    case True
    then show ?thesis using Cons.prems by (auto simp: readPacket_take)
  next
    case False
    from Cons.IH Cons.prems [unfolded readPacket_skip [OF False]] show ?thesis by fastforce
  qed
qed simp

section \<open>Properties\<close>

text \<open>
  C35: \<^verbatim>\<open>readPacket\<close> delivers the first acceptable frame and nothing else. A non-negative result is
  the length of the first received frame that came from this interface over Ethernet and was not
  an outgoing copy; the buffer then starts with exactly the stored bytes of that frame, all
  earlier answers were unacceptable and are consumed, the later ones are kept.
\<close>

theorem readPacket_first_accepted:
  assumes "readPacket d buffer = (n, b, d')" and "\<forall>r\<in>set (rx d). recv_fits (length buffer) r"
    and "n \<noteq> -1"
  shows "\<exists>skipped r. rx d = skipped @ r # rx d' \<and> accepted (devID d) r \<and>
    (\<forall>r'\<in>set skipped. \<not> accepted (devID d) r') \<and> n = ra_ret r \<and> 0 \<le> n \<and>
    take (nat n) b = ra_data r \<and> length b = length buffer \<and> tx d' = tx d"
proof -
  obtain rest where loop: "readPacket_loop (devID d) (rx d) buffer = (n, b, rest)"
    and d': "d' = d\<lparr>rx := rest\<rparr>"
    using assms(1) by (auto simp: readPacket_def split: prod.splits)
  show ?thesis
    using readPacket_loop_result [OF loop assms(2)] assms(3) d' by auto
qed

definition sample_rx :: "recv_answer list" where
  "sample_rx =
    [\<lparr>ra_ret = 2, ra_data = [1, 2], ra_len = 20, ra_hatype = 1, ra_ifindex = 3, ra_pkttype = 4\<rparr>,
     \<lparr>ra_ret = 5, ra_data = [7, 8, 9], ra_len = 20, ra_hatype = 1, ra_ifindex = 3, ra_pkttype = 0\<rparr>]"

definition sample_dev :: device where
  "sample_dev = \<lparr>sock = 5, devID = 3, prevFlag = 0, devName = ''eth1'', rx = sample_rx, tx = []\<rparr>"

theorem readPacket_first_accepted_witness:
  "readPacket sample_dev [0, 0, 0] = (5, [7, 8, 9], sample_dev\<lparr>rx := []\<rparr>) \<and>
   (\<exists>skipped r. rx sample_dev = skipped @ r # [] \<and> accepted 3 r \<and> ra_ret r = 5 \<and>
     ra_data r = [7, 8, 9])"
proof -
  have r: "readPacket sample_dev [0, 0, 0] = (5, [7, 8, 9], sample_dev\<lparr>rx := []\<rparr>)"
    by (simp add: readPacket_def sample_dev_def sample_rx_def readPacket_loop.simps overwrite_def sizes)
  have fits: "\<forall>r\<in>set (rx sample_dev). recv_fits (length [0, 0, 0 :: byte]) r"
    by (simp add: sample_dev_def sample_rx_def recv_fits_def)
  have dev: "devID sample_dev = 3" by (simp add: sample_dev_def)
  from readPacket_first_accepted [OF r fits] obtain skipped a where
    "rx sample_dev = skipped @ [a]" "accepted 3 a" "ra_ret a = 5" "ra_data a = [7, 8, 9]"
    by (auto simp: dev)
  with r show ?thesis by blast
qed

text \<open>
  Opening a device leaves no socket behind on failure. When the constructor exits after the
  socket was opened, closing that socket is the last call it made; when it succeeds, it made no
  close call, it bound the interface whose index it read, and it kept the flags the interface had
  before, which the destructor writes back before it closes the socket.
\<close>

theorem Device_opens_or_closes:
  assumes "0 < ret_socket env"
  shows "case Device_new env name rxs of
      (calls, Inl e) \<Rightarrow> e = Exit \<and> last calls = Call_close (ret_socket env)
    | (calls, Inr d) \<Rightarrow>
        (\<forall>s. Call_close s \<notin> set calls) \<and> last calls = Call_bind (devID d) \<and>
        devID d = if_index env \<and> tx d = [] \<and>
        Device_delete d =
          ([Call_SIOCSIFFLAGS (old_flags env), Call_close (ret_socket env)], d\<lparr>sock := -1\<rparr>)"
  using assms by (simp add: Device_new_def Device_delete_def Let_def)

definition sample_env :: dev_env where
  "sample_env = \<lparr>ret_socket = 5, ret_gifflags = 0, old_flags = 0x1043, ret_sifflags = 0, ret_sifmtu = 0,
     ret_gifmtu = 0, ret_gifindex = 0, if_index = 3, ret_bind = -1\<rparr>"

theorem Device_opens_or_closes_witness:
  "snd (Device_new sample_env ''eth1'' []) = Inl Exit \<and>
   last (fst (Device_new sample_env ''eth1'' [])) = Call_close 5"
proof -
  have "Device_new sample_env ''eth1'' [] =
      (fst (Device_new sample_env ''eth1'' []), Inl Exit)"
    by (simp add: Device_new_def sample_env_def Let_def)
  with Device_opens_or_closes [of sample_env "''eth1''" "[]"] show ?thesis
    by (simp add: sample_env_def split: prod.splits)
qed

end
