(* ===== verification/ICMP.thy ===== *)
theory ICMP
  imports UDP Device
begin

text \<open>
  \<^verbatim>\<open>Gateway::icmp_mtu\<close> of \<^verbatim>\<open>gateway.cpp\<close>: the "fragmentation needed" answer to a frame that is longer than
  the MTU, sent back through the device it came from. The lemmas give the answer byte for byte
  and that both of its checksums verify.
\<close>

section \<open>The message\<close>

text \<open>\<^verbatim>\<open>struct icmp_too_big\<close>: the ICMP header, then the IP header and eight bytes of the frame.\<close>

record icmp_too_big =
  icmp_type :: byte
  icmp_code :: byte
  icmp_checksum :: u16
  icmp_frag_mtu :: u16
  icmp_ip :: "byte list"

definition icmp_bytes :: "icmp_too_big \<Rightarrow> byte list" where
  "icmp_bytes r = [icmp_type r, icmp_code r] @ bytes16 (icmp_checksum r) @ [0, 0] @
     bytes16 (icmp_frag_mtu r) @ icmp_ip r"

definition sizeof_icmp_too_big :: int where [sizes]:
  "sizeof_icmp_too_big = sizeof_icmphdr + sizeof_ip + 8"

definition icmp_ip_hdr :: "in_addr \<Rightarrow> in_addr \<Rightarrow> ip_hdr" where
  "icmp_ip_hdr src dst =
     \<lparr>ip_hl = 5, ip_v = 4, ip_tos = 0, ip_len = htons (word_of_int (sizeof_ip + sizeof_icmp_too_big)),
      ip_id = 0, ip_off = htons IP_DF, ip_ttl = 64, ip_p = IPPROTO_ICMP, ip_sum = 0,
      ip_src = src, ip_dst = dst\<rparr>"

section \<open>Answering a frame\<close>

text \<open>\<open>mem\<close> is what \<^verbatim>\<open>malloc\<close> returns for the buffer of the answer.\<close>

definition icmp_mtu :: "byte list option \<Rightarrow> device \<Rightarrow> packet \<Rightarrow> u16 \<Rightarrow> device result" where
  "icmp_mtu mem dev packet MTU =
     (if getLength packet < sizeof_ether_header + sizeof_ip + 8 then Inr dev
      else
        bindR (Ethernet_getProtocol packet Ethernet_new) (\<lambda>proto.
        if proto \<noteq> ETHERTYPE_IP then Inr dev
        else
        bindR (IP_getNextOffset packet sizeof_ether_header) (\<lambda>nxt.
        if nxt - sizeof_ether_header \<noteq> 20 then Inr dev
        else
        let size = sizeof_ether_header + sizeof_icmp_too_big + sizeof_ip in
        bindR (Packet_new mem size) (\<lambda>s_packet.
        let s_packet = setLength s_packet size;
            response = \<lparr>icmp_type = ICMP_DEST_UNREACH, icmp_code = ICMP_FRAG_NEEDED, icmp_checksum = 0,
              icmp_frag_mtu = htons MTU, icmp_ip = replicate 28 0\<rparr> in
        bindR (into_init id (icmp_ip response) (readByteArray packet sizeof_ether_header
          (sizeof_ether_header + sizeof_ip + 8))) (\<lambda>orig.
        let response = response\<lparr>icmp_ip := orig\<rparr> in
        bindR (one_compl (icmp_bytes response)) (\<lambda>c.
        let response = response\<lparr>icmp_checksum := c\<rparr> in
        bindR (Ethernet_getDestination packet Ethernet_new) (\<lambda>d.
        bindR (Ethernet_setSource s_packet Ethernet_new d) (\<lambda>s_packet.
        bindR (Ethernet_getSource packet Ethernet_new) (\<lambda>s.
        bindR (Ethernet_setDestination s_packet Ethernet_new s) (\<lambda>s_packet.
        bindR (Ethernet_setProtocol s_packet Ethernet_new ETHERTYPE_IP) (\<lambda>s_packet.
        bindR (IP_getDestination packet sizeof_ether_header) (\<lambda>ipd.
        bindR (IP_getSource packet sizeof_ether_header) (\<lambda>ips.
        let s_ip_hdr = icmp_ip_hdr ipd ips in
        bindR (one_compl (ip_bytes s_ip_hdr)) (\<lambda>c.
        let s_ip_hdr = s_ip_hdr\<lparr>ip_sum := c\<rparr>; current_offset = sizeof_ether_header in
        bindR (writeByteArray s_packet current_offset (current_offset + sizeof_ip)
          (ip_bytes s_ip_hdr)) (\<lambda>s_packet.
        let current_offset = current_offset + sizeof_ip in
        bindR (writeByteArray s_packet current_offset (current_offset + sizeof_icmp_too_big)
          (icmp_bytes response)) (\<lambda>s_packet.
        writePacket dev (inMemory s_packet) (getLength s_packet)))))))))))))))))"

section \<open>What is sent\<close>

definition icmp_header :: "in_addr \<Rightarrow> in_addr \<Rightarrow> byte list" where
  "icmp_header src dst =
     (let h = icmp_ip_hdr src dst
      in ip_bytes (h\<lparr>ip_sum := htons (NOT (fold_sum (of_nat (words_sum (ip_bytes h)))))\<rparr>))"

definition icmp_unsummed :: "u16 \<Rightarrow> byte list \<Rightarrow> icmp_too_big" where
  "icmp_unsummed MTU orig =
     \<lparr>icmp_type = 3, icmp_code = 4, icmp_checksum = 0, icmp_frag_mtu = htons MTU, icmp_ip = orig\<rparr>"

definition icmp_message :: "u16 \<Rightarrow> byte list \<Rightarrow> byte list" where
  "icmp_message MTU orig =
     (let r = icmp_unsummed MTU orig
      in icmp_bytes (r\<lparr>icmp_checksum := htons (NOT (fold_sum (of_nat (words_sum (icmp_bytes r)))))\<rparr>))"

definition icmp_frame :: "byte list \<Rightarrow> u16 \<Rightarrow> byte list" where
  "icmp_frame m MTU = segment 6 12 m @ segment 0 6 m @ [8, 0] @
     icmp_header (in_addr_of (segment 30 34 m)) (in_addr_of (segment 26 30 m)) @
     icmp_message MTU (segment 14 42 m)"

lemma length_icmp_bytes [simp]: "length (icmp_bytes r) = 8 + length (icmp_ip r)"
  by (simp add: icmp_bytes_def)

lemma length_icmp_header [simp]: "length (icmp_header s d) = 20"
  by (simp add: icmp_header_def Let_def)

lemma length_icmp_message [simp]: "length (icmp_message MTU orig) = 8 + length orig"
  by (simp add: icmp_message_def icmp_unsummed_def Let_def)

lemma icmp_header_verifies: "one_compl (icmp_header s d) = Inr 0"
proof -
  let ?h = "icmp_ip_hdr s d"
  let ?c = "htons (NOT (fold_sum (of_nat (words_sum (ip_bytes ?h)))))"
  have "one_compl (ip_bytes ?h) = Inr ?c" by (rule one_compl_even) simp
  moreover have "segment 10 (10 + 2) (ip_bytes ?h) = [0, 0]"
    by (simp add: ip_bytes_def icmp_ip_hdr_def segment_def bytes16_def)
  ultimately have "one_compl (overwrite 10 (bytes16 ?c) (ip_bytes ?h)) = Inr 0"
    by (intro one_compl_verifies) simp_all
  moreover have "overwrite 10 (bytes16 ?c) (ip_bytes ?h) = icmp_header s d"
    by (simp add: icmp_header_def Let_def ip_bytes_def icmp_ip_hdr_def overwrite_def bytes16_def)
  ultimately show ?thesis by simp
qed

lemma icmp_message_verifies:
  assumes "even (length orig)" and "length orig \<le> 131060"
  shows "one_compl (icmp_message MTU orig) = Inr 0"
proof -
  let ?r = "icmp_unsummed MTU orig"
  let ?c = "htons (NOT (fold_sum (of_nat (words_sum (icmp_bytes ?r)))))"
  have "one_compl (icmp_bytes ?r) = Inr ?c"
    using assms by (intro one_compl_even) (simp add: icmp_unsummed_def)
  moreover have "segment 2 (2 + 2) (icmp_bytes ?r) = [0, 0]"
    by (simp add: icmp_bytes_def icmp_unsummed_def segment_def bytes16_def)
  ultimately have "one_compl (overwrite 2 (bytes16 ?c) (icmp_bytes ?r)) = Inr 0"
    using assms by (intro one_compl_verifies) (simp_all add: icmp_unsummed_def)
  moreover have "overwrite 2 (bytes16 ?c) (icmp_bytes ?r) = icmp_message MTU orig"
    by (simp add: icmp_message_def Let_def icmp_bytes_def icmp_unsummed_def overwrite_def bytes16_def)
  ultimately show ?thesis by simp
qed

lemma icmp_header_code:
  "one_compl (ip_bytes (icmp_ip_hdr s d)) =
     Inr (htons (NOT (fold_sum (of_nat (words_sum (ip_bytes (icmp_ip_hdr s d)))))))"
  "ip_bytes (icmp_ip_hdr s d\<lparr>ip_sum := htons (NOT (fold_sum (of_nat (words_sum (ip_bytes (icmp_ip_hdr s d))))))\<rparr>) =
     icmp_header s d"
  by (simp_all add: one_compl_even icmp_header_def Let_def)

lemma icmp_message_code:
  assumes "length orig = 28"
  shows "one_compl (icmp_bytes (icmp_unsummed MTU orig)) =
     Inr (htons (NOT (fold_sum (of_nat (words_sum (icmp_bytes (icmp_unsummed MTU orig)))))))"
  using assms by (intro one_compl_even) (simp add: icmp_unsummed_def)

lemma icmp_answer_stage:
  assumes "length m = 70" and "length w = 14"
    and "s = written \<lparr>writtenByte = 70, capacity = 70, inMemory = m\<rparr> 0 w"
    and "length h = 20" and "length msg = 36"
  shows "bindR (writeByteArray s 14 34 h) (\<lambda>s. bindR (writeByteArray s 34 70 msg) (\<lambda>s.
    writePacket dev (inMemory s) (getLength s))) = Inr (sent dev (w @ h @ msg))"
proof -
  let ?p = "\<lparr>writtenByte = 70, capacity = 70, inMemory = m\<rparr>"
  have wf: "wf_packet ?p" using assms by (simp add: wf_packet_def)
  have "writeByteArray (written ?p 0 w) 14 34 h = Inr (written ?p 0 (w @ h))"
    using assms wf by (intro write_next) simp_all
  moreover have "writeByteArray (written ?p 0 (w @ h)) 34 70 msg = Inr (written ?p 0 ((w @ h) @ msg))"
    using assms wf by (intro write_next) simp_all
  moreover have "frame (written ?p 0 ((w @ h) @ msg)) = w @ h @ msg"
    using assms by (simp add: frame_def overwrite_0)
  moreover have "wf_packet (written ?p 0 ((w @ h) @ msg))"
    using assms wf by (intro wf_written) simp_all
  ultimately show ?thesis
    using assms writePacket_frame [of "written ?p 0 ((w @ h) @ msg)" dev] by (simp add: sizes)
qed

lemma icmp_mtu_sends:
  assumes wf: "wf_packet p" and len: "42 \<le> writtenByte p" and m: "length m = 70"
    and proto: "Ethernet_getProtocol p 0 = Inr ETHERTYPE_IP" and hlen: "IP_getNextOffset p 14 = Inr 34"
  shows "icmp_mtu (Some m) dev p MTU = Inr (sent dev (icmp_frame (inMemory p) MTU))"
proof -
  let ?m = "inMemory p"
  let ?s = "\<lparr>writtenByte = 70, capacity = 70, inMemory = m\<rparr>"
  let ?d = "ether_of (segment 0 6 ?m)" and ?e = "ether_of (segment 6 12 ?m)"
  let ?w = "octets ?e @ octets ?d @ [8, 0]"
  let ?orig = "segment 14 42 ?m"
  have big: "42 \<le> length ?m" using wf len by (simp add: wf_packet_def)
  have orig: "length ?orig = 28" using big by simp
  have wfs: "wf_packet ?s" using m by (simp add: wf_packet_def)
  have read: "readByteArray p 14 42 = Inr (Some ?orig)"
    using wf len by (subst readByteArray_inside) simp_all
  have eth: "bindR (Ethernet_setSource ?s 0 ?d) (\<lambda>s. bindR (Ethernet_setDestination s 0 ?e) (\<lambda>s.
      bindR (Ethernet_setProtocol s 0 2048) k)) = k (written ?s 0 ?w)" for k :: "packet \<Rightarrow> device result"
    using wfs by (intro makePacket_ethernet_stage) simp_all
  have addrs: "Ethernet_getDestination p 0 = Inr ?d" "Ethernet_getSource p 0 = Inr ?e"
    "IP_getDestination p 14 = Inr (in_addr_of (segment 30 34 ?m))"
    "IP_getSource p 14 = Inr (in_addr_of (segment 26 30 ?m))"
    using wf len by (simp_all add: wire)
  have msg: "icmp_bytes ((icmp_unsummed MTU ?orig)\<lparr>icmp_checksum :=
      htons (NOT (fold_sum (of_nat (words_sum (icmp_bytes (icmp_unsummed MTU ?orig))))))\<rparr>) = icmp_message MTU ?orig"
    by (simp add: icmp_message_def Let_def)
  have res: "\<lparr>icmp_type = 3, icmp_code = 4, icmp_checksum = 0, icmp_frag_mtu = htons MTU, icmp_ip = ?orig\<rparr> =
      icmp_unsummed MTU ?orig"
    by (simp add: icmp_unsummed_def)
  show ?thesis
    using len proto hlen wf big icmp_answer_stage [OF m _ refl, of ?w _ "icmp_message MTU ?orig" dev]
    by (simp add: icmp_mtu_def getLength_def sizes Packet_new_def setLength_def read into_init_def addrs
        Let_def res icmp_message_code [OF orig] eth icmp_header_code msg icmp_frame_def octets_ether_of)
qed

text \<open>Which frames are answered; every other one is ignored.\<close>

definition answerable :: "packet \<Rightarrow> bool" where
  "answerable p \<longleftrightarrow> 42 \<le> writtenByte p \<and> segment 12 14 (inMemory p) = [8, 0] \<and>
     unat (inMemory p ! 14) mod 16 \<le> 5"

lemma answerable_iff:
  assumes "wf_packet p" and "42 \<le> writtenByte p"
  shows "Ethernet_getProtocol p 0 = Inr ETHERTYPE_IP \<longleftrightarrow> segment 12 14 (inMemory p) = [8, 0]"
    and "IP_getNextOffset p 14 = Inr 34 \<longleftrightarrow> unat (inMemory p ! 14) mod 16 \<le> 5"
proof -
  have len: "14 \<le> length (inMemory p)" using assms by (simp add: wf_packet_def)
  have "Ethernet_getProtocol p 0 = Inr (ntohs (le16 (segment 12 14 (inMemory p))))"
    using assms by (simp add: wire)
  then show "Ethernet_getProtocol p 0 = Inr ETHERTYPE_IP \<longleftrightarrow> segment 12 14 (inMemory p) = [8, 0]"
    using len by (simp add: field16_eq proto_ip_bytes)
  show "IP_getNextOffset p 14 = Inr 34 \<longleftrightarrow> unat (inMemory p ! 14) mod 16 \<le> 5"
    using assms IP_getNextOffset_inside [of p 14] ip_hlen_20 [of "inMemory p ! 14"] by (simp add: ip_hlen_20)
qed

lemma icmp_mtu_ok:
  assumes "wf_packet p" and "length m = 70"
  shows "icmp_mtu (Some m) dev p MTU =
    Inr (if answerable p then sent dev (icmp_frame (inMemory p) MTU) else dev)"
proof (cases "42 \<le> writtenByte p")
  case True
  obtain proto where proto: "Ethernet_getProtocol p 0 = Inr proto"
    using assms True by (simp add: wire)
  obtain nxt where nxt: "IP_getNextOffset p 14 = Inr nxt"
    using assms True IP_getNextOffset_inside [of p 14] by simp
  show ?thesis
    using icmp_mtu_sends [OF assms(1) True assms(2)] answerable_iff [OF assms(1) True] proto nxt True
    by (cases "answerable p") (auto simp: answerable_def icmp_mtu_def getLength_def sizes)
qed (simp add: icmp_mtu_def getLength_def sizes answerable_def)

lemma icmp_message_parts:
  "take 2 (icmp_message MTU orig) = [3, 4]" "segment 6 8 (icmp_message MTU orig) = bytes16 (htons MTU)"
  "drop 8 (icmp_message MTU orig) = orig"
  by (simp_all add: icmp_message_def icmp_unsummed_def icmp_bytes_def Let_def segment_def bytes16_def)

lemma icmp_header_addresses:
  "segment 12 16 (icmp_header s d) = in_addr_bytes s" "segment 16 20 (icmp_header s d) = in_addr_bytes d"
  by (simp_all add: icmp_header_def ip_bytes_def icmp_ip_hdr_def Let_def segment_def bytes16_def)

section \<open>Properties\<close>

text \<open>
  C29: An IPv4 frame of at least 42 bytes without IP options is answered through the same device by
  one frame: its Ethernet addresses are those of the frame swapped, its IP addresses are those of
  the frame swapped, it carries "fragmentation needed" with the MTU and the IP header and
  first eight payload bytes of the frame, and both its IP header and its ICMP message verify
  under the Internet checksum. Every other frame is left without an answer.
\<close>

theorem icmp_mtu_answers:
  assumes "wf_packet p" and "length m = 70"
  shows "(\<not> answerable p \<longrightarrow> icmp_mtu (Some m) dev p MTU = Inr dev) \<and>
    (answerable p \<longrightarrow> (\<exists>hdr msg.
      icmp_mtu (Some m) dev p MTU = Inr (sent dev
        (segment 6 12 (inMemory p) @ segment 0 6 (inMemory p) @ [8, 0] @ hdr @ msg)) \<and>
      one_compl hdr = Inr 0 \<and> one_compl msg = Inr 0 \<and>
      segment 12 16 hdr = segment 30 34 (inMemory p) \<and>
      segment 16 20 hdr = segment 26 30 (inMemory p) \<and>
      take 2 msg = [ICMP_DEST_UNREACH, ICMP_FRAG_NEEDED] \<and> segment 6 8 msg = bytes16 (htons MTU) \<and>
      drop 8 msg = segment 14 42 (inMemory p)))"
proof (intro conjI impI)
  show "\<not> answerable p \<Longrightarrow> icmp_mtu (Some m) dev p MTU = Inr dev"
    using icmp_mtu_ok [OF assms] by simp
  assume "answerable p"
  then have len: "42 \<le> length (inMemory p)" using assms(1) by (simp add: answerable_def wf_packet_def)
  let ?h = "icmp_header (in_addr_of (segment 30 34 (inMemory p))) (in_addr_of (segment 26 30 (inMemory p)))"
  let ?m = "icmp_message MTU (segment 14 42 (inMemory p))"
  have "one_compl ?m = Inr 0" using len by (intro icmp_message_verifies) simp_all
  with len \<open>answerable p\<close> icmp_mtu_ok [OF assms] show "\<exists>hdr msg.
      icmp_mtu (Some m) dev p MTU = Inr (sent dev
        (segment 6 12 (inMemory p) @ segment 0 6 (inMemory p) @ [8, 0] @ hdr @ msg)) \<and>
      one_compl hdr = Inr 0 \<and> one_compl msg = Inr 0 \<and>
      segment 12 16 hdr = segment 30 34 (inMemory p) \<and>
      segment 16 20 hdr = segment 26 30 (inMemory p) \<and>
      take 2 msg = [ICMP_DEST_UNREACH, ICMP_FRAG_NEEDED] \<and> segment 6 8 msg = bytes16 (htons MTU) \<and>
      drop 8 msg = segment 14 42 (inMemory p)"
    by (intro exI [of _ ?h] exI [of _ ?m]) (simp add: icmp_frame_def icmp_header_verifies
        icmp_message_parts icmp_header_addresses in_addr_bytes_of sizes)
qed

definition long_frame :: packet where
  "long_frame = \<lparr>writtenByte = 42, capacity = 42,
     inMemory = [1, 2, 3, 4, 5, 6, 7, 8, 9, 10, 11, 12, 8, 0, 0x45] @ replicate 27 9\<rparr>"

theorem icmp_mtu_answers_witness:
  "\<exists>hdr msg. icmp_mtu (Some (replicate 70 0)) sample_dev long_frame 1500 = Inr (sent sample_dev
      ([7, 8, 9, 10, 11, 12] @ [1, 2, 3, 4, 5, 6] @ [8, 0] @ hdr @ msg)) \<and>
    one_compl hdr = Inr 0 \<and> one_compl msg = Inr 0 \<and> take 2 msg = [3, 4] \<and>
    segment 6 8 msg = [5, 220]"
proof -
  have wf: "wf_packet long_frame" by (simp add: wf_packet_def long_frame_def)
  have ans: "answerable long_frame" by (simp add: answerable_def long_frame_def segment_def)
  have m: "length (replicate 70 0 :: byte list) = 70" by simp
  have segs: "segment 6 12 (inMemory long_frame) = [7, 8, 9, 10, 11, 12]"
    "segment 0 6 (inMemory long_frame) = [1, 2, 3, 4, 5, 6]"
    by (simp_all add: long_frame_def segment_def)
  have mtu: "bytes16 (htons 1500) = [5, 220]" by (simp add: bytes16_htons)
  from icmp_mtu_answers [OF wf m, of sample_dev 1500] ans show ?thesis
    unfolding segs mtu sizes by blast
qed

end
