(* ===== verification/Unordered_Map.thy ===== *)
theory Unordered_Map
  imports Prelude
begin

text \<open>
  The map container as the gateway uses it: \<^verbatim>\<open>boost::unordered_map\<close> with \<^verbatim>\<open>find\<close>, \<^verbatim>\<open>insert\<close>,
  \<^verbatim>\<open>erase\<close> and \<^verbatim>\<open>size\<close>. The locale \<open>hash_map\<close> is the documented contract the gateway relies on;
  it is interpreted on association lists. The order of the entries is never observed by the
  program.
\<close>

section \<open>The map\<close>

type_synonym ('k, 'v) umap = "('k \<times> 'v) list"

definition um_empty :: "('k, 'v) umap" where
  "um_empty = []"

text \<open>\<open>None\<close> is the \<^verbatim>\<open>end()\<close> iterator.\<close>

definition um_find :: "('k, 'v) umap \<Rightarrow> 'k \<Rightarrow> 'v option" where
  "um_find m k = map_of m k"

text \<open>\<^verbatim>\<open>insert\<close> does nothing when the key is present.\<close>

definition um_insert :: "'k \<Rightarrow> 'v \<Rightarrow> ('k, 'v) umap \<Rightarrow> ('k, 'v) umap" where
  "um_insert k v m = (case map_of m k of None \<Rightarrow> (k, v) # m | Some _ \<Rightarrow> m)"

definition um_erase :: "'k \<Rightarrow> ('k, 'v) umap \<Rightarrow> ('k, 'v) umap" where
  "um_erase k m = filter (\<lambda>e. fst e \<noteq> k) m"

definition um_size :: "('k, 'v) umap \<Rightarrow> nat" where
  "um_size m = length m"

definition um_ok :: "('k, 'v) umap \<Rightarrow> bool" where
  "um_ok m \<longleftrightarrow> distinct (map fst m)"

section \<open>The contract\<close>

locale hash_map =
  fixes empty :: 'm
    and find :: "'m \<Rightarrow> 'k \<Rightarrow> 'v option"
    and insert :: "'k \<Rightarrow> 'v \<Rightarrow> 'm \<Rightarrow> 'm"
    and erase :: "'k \<Rightarrow> 'm \<Rightarrow> 'm"
    and size :: "'m \<Rightarrow> nat"
    and invar :: "'m \<Rightarrow> bool"
  assumes find_empty: "find empty k = None"
    and find_insert: "find (insert k v m) k' =
      (if k' = k then (case find m k of None \<Rightarrow> Some v | Some w \<Rightarrow> Some w) else find m k')"
    and find_erase: "find (erase k m) k' = (if k' = k then None else find m k')"
    and size_0: "size m = 0 \<longleftrightarrow> m = empty"
    and invar_empty: "invar empty"
    and invar_insert: "invar m \<Longrightarrow> invar (insert k v m)"
    and invar_erase: "invar m \<Longrightarrow> invar (erase k m)"
begin

text \<open>Erasing a key and inserting it overwrites its value; without the erase the old value stays.\<close>

lemma find_replace: "find (insert k v (erase k m)) k' = (if k' = k then Some v else find m k')"
  by (simp add: find_insert find_erase)

lemma find_insert_absent: "find m k = None \<Longrightarrow> find (insert k v m) k' = (if k' = k then Some v else find m k')"
  by (simp add: find_insert)

lemma find_insert_present: "find m k = Some w \<Longrightarrow> find (insert k v m) k' = find m k'"
  by (auto simp: find_insert)

text \<open>Guarding the erase with a size test changes nothing.\<close>

lemma find_guarded_replace:
  "find (insert k v (if size m > 0 then erase k m else m)) k' = (if k' = k then Some v else find m k')"
  using size_0 [of m] by (cases "size m > 0") (auto simp: find_insert find_erase find_empty)

lemma invar_guarded_replace: "invar m \<Longrightarrow> invar (insert k v (if size m > 0 then erase k m else m))"
  by (simp add: invar_insert invar_erase)

end

interpretation um: hash_map um_empty um_find um_insert um_erase um_size um_ok
proof unfold_locales
  fix m :: "('a, 'b) umap" and k k' :: 'a and v :: 'b
  show "um_find um_empty k = (None :: 'b option)" by (simp add: um_find_def um_empty_def)
  show "um_find (um_insert k v m) k' =
      (if k' = k then (case um_find m k of None \<Rightarrow> Some v | Some w \<Rightarrow> Some w) else um_find m k')"
    by (auto simp: um_find_def um_insert_def split: option.splits)
  show "um_find (um_erase k m) k' = (if k' = k then None else um_find m k')"
    by (induction m) (auto simp: um_find_def um_erase_def)
  show "um_size m = 0 \<longleftrightarrow> m = um_empty" by (simp add: um_size_def um_empty_def)
  show "um_ok (um_empty :: ('a, 'b) umap)" by (simp add: um_ok_def um_empty_def)
  show "um_ok m \<Longrightarrow> um_ok (um_insert k v m)"
    by (auto simp: um_ok_def um_insert_def map_of_eq_None_iff split: option.splits)
  show "um_ok m \<Longrightarrow> um_ok (um_erase k m)"
    by (simp add: um_ok_def um_erase_def distinct_map_filter)
qed

lemmas um_find_simps [simp] = um.find_empty um.find_erase um.find_insert_absent um.find_replace
  um.find_guarded_replace

lemma um_find_Nil [simp]: "um_find [] k = None"
  by (simp add: um_find_def)

lemma um_find_Cons [simp]: "um_find ((k, v) # m) k' = (if k' = k then Some v else um_find m k')"
  by (simp add: um_find_def)

text \<open>The values of a map without duplicate keys.\<close>

lemma um_find_in_values: "um_find m k = Some v \<Longrightarrow> v \<in> set (map snd m)"
  by (auto simp: um_find_def dest: map_of_SomeD intro: rev_image_eqI)

lemma um_values_find: "um_ok m \<Longrightarrow> v \<in> set (map snd m) \<Longrightarrow> \<exists>k. um_find m k = Some v"
  by (auto simp: um_ok_def um_find_def)

lemma um_erase_absent: "um_find m k = None \<Longrightarrow> um_erase k m = m"
  by (auto simp: um_find_def um_erase_def map_of_eq_None_iff intro: filter_True rev_image_eqI)

lemma um_insert_absent: "um_find m k = None \<Longrightarrow> um_insert k v m = (k, v) # m"
  by (simp add: um_find_def um_insert_def)

lemma um_erase_values:
  assumes "um_ok m" and "um_find m k = Some v" and "distinct (map snd m)"
  shows "set (map snd (um_erase k m)) = set (map snd m) - {v}"
    and "distinct (map snd (um_erase k m))"
  using assms
proof (induction m)
  case (Cons e m)
  {
    case 1
    then show ?case
    proof (cases "fst e = k")
      case True
      then have "um_find m k = None" using 1
        by (cases e) (auto simp: um_ok_def um_find_def map_of_eq_None_iff)
      then show ?thesis using 1 True um_erase_absent [of m k]
        by (cases e) (auto simp: um_erase_def)
    next
      case False
      then have ih: "set (map snd (um_erase k m)) = set (map snd m) - {v}"
        using 1 Cons.IH(1) by (cases e) (auto simp: um_ok_def)
      have "v \<in> set (map snd m)" using 1 False um_find_in_values [of m k v] by (cases e) auto
      then show ?thesis using 1 False ih by (cases e) (auto simp: um_erase_def)
    qed
  next
    case 2
    then show ?case by (auto simp: um_erase_def intro: distinct_map_filter)
  }
qed (simp_all add: um_erase_def)

end
