(* ===== verification/Event_Queue.thy ===== *)
theory Event_Queue
  imports Prelude
begin

text \<open>
  The request channel between the threads, seven times in the program: a \<^verbatim>\<open>std::queue\<close> and an
  \<^verbatim>\<open>eventfd\<close> counter, both touched only under the channel's mutex. A sender pushes one request
  and adds one to the counter; the handler reads the counter, which resets it, and takes that
  many requests off the queue. The locale \<open>request_channel\<close> states what the senders and handlers rely
  on and is interpreted on this pair.
\<close>

section \<open>The channel\<close>

record 'a eventq =
  pending :: nat
  requests :: "'a list"

definition eq_empty :: "'a eventq" where
  "eq_empty = \<lparr>pending = 0, requests = []\<rparr>"

definition eq_push :: "'a \<Rightarrow> 'a eventq \<Rightarrow> 'a eventq" where
  "eq_push x q = q\<lparr>requests := requests q @ [x], pending := pending q + 1\<rparr>"

text \<open>The handler's loop: \<open>n\<close> times \<^verbatim>\<open>front()\<close>, \<^verbatim>\<open>pop()\<close> and the work \<open>f\<close> on the request.\<close>

fun drain :: "('a \<Rightarrow> 's \<Rightarrow> 's result) \<Rightarrow> nat \<Rightarrow> 'a list \<Rightarrow> 's \<Rightarrow> ('a list \<times> 's) result" where
  "drain f 0 q s = Inr (q, s)"
| "drain f (Suc n) [] s = Inl EmptyQueue"
| "drain f (Suc n) (x # q) s = bindR (f x s) (drain f n q)"

definition eq_handle :: "('a \<Rightarrow> 's \<Rightarrow> 's result) \<Rightarrow> 'a eventq \<Rightarrow> 's \<Rightarrow> ('a eventq \<times> 's) result" where
  "eq_handle f q s =
     mapR (\<lambda>(rest, s). (\<lparr>pending = 0, requests = rest\<rparr>, s)) (drain f (pending q) (requests q) s)"

definition eq_ok :: "'a eventq \<Rightarrow> bool" where
  "eq_ok q \<longleftrightarrow> pending q = length (requests q)"

fun foldR :: "('a \<Rightarrow> 's \<Rightarrow> 's result) \<Rightarrow> 'a list \<Rightarrow> 's \<Rightarrow> 's result" where
  "foldR f [] s = Inr s"
| "foldR f (x # xs) s = bindR (f x s) (foldR f xs)"

section \<open>Folding requests\<close>

lemma foldR_append: "foldR f (xs @ ys) s = bindR (foldR f xs s) (foldR f ys)"
  by (induction xs arbitrary: s) (auto simp: bindR_def split: sum.splits)

lemma foldR_total: "foldR (\<lambda>x s. Inr (g x s)) xs s = Inr (fold g xs s)"
  by (induction xs arbitrary: s) simp_all

lemma foldR_collect: "foldR (\<lambda>x s. Inr (s @ [x])) xs s = Inr (s @ xs)"
  by (induction xs arbitrary: s) simp_all

lemma foldR_invariant:
  assumes "foldR f xs s = Inr s'" and "P s"
    and "\<And>x s s'. x \<in> set xs \<Longrightarrow> f x s = Inr s' \<Longrightarrow> P s \<Longrightarrow> P s'"
  shows "P s'"
  using assms
proof (induction xs arbitrary: s)
  case (Cons x xs)
  from Cons.prems(1) obtain t where t: "f x s = Inr t" "foldR f xs t = Inr s'" by auto
  have "P t" using Cons.prems t(1) by auto
  from Cons.IH [OF t(2) this] Cons.prems(3) show ?case by auto
qed simp

lemma drain_all: "drain f (length q) q s = mapR (Pair []) (foldR f q s)"
proof (induction q arbitrary: s)
  case (Cons x q)
  then show ?case by (cases "f x s") simp_all
qed simp

section \<open>The contract\<close>

locale request_channel =
  fixes empty :: 'q
    and push :: "'a \<Rightarrow> 'q \<Rightarrow> 'q"
    and handle :: "('a \<Rightarrow> 's \<Rightarrow> 's result) \<Rightarrow> 'q \<Rightarrow> 's \<Rightarrow> ('q \<times> 's) result"
    and contents :: "'q \<Rightarrow> 'a list"
    and invar :: "'q \<Rightarrow> bool"
  assumes contents_empty: "contents empty = []"
    and invar_empty: "invar empty"
    and contents_push: "contents (push x q) = contents q @ [x]"
    and invar_push: "invar q \<Longrightarrow> invar (push x q)"
    and handle_contents: "invar q \<Longrightarrow> handle f q s = mapR (Pair empty) (foldR f (contents q) s)"
begin

lemma contents_pushes: "contents (fold push xs q) = contents q @ xs"
  by (induction xs arbitrary: q) (simp_all add: contents_push)

lemma invar_pushes: "invar q \<Longrightarrow> invar (fold push xs q)"
  by (induction xs arbitrary: q) (simp_all add: invar_push)

text \<open>Requests are served once each, in the order they were sent.\<close>

lemma served_in_order: "handle f (fold push xs empty) s = mapR (Pair empty) (foldR f xs s)"
  by (simp add: handle_contents invar_pushes invar_empty contents_pushes contents_empty)

lemma handled_empty:
  assumes "invar q" and "handle f q s = Inr (q', s')"
  shows "q' = empty" and "foldR f (contents q) s = Inr s'"
  using assms by (auto simp: handle_contents)

text \<open>A handler fails only if its work on some request fails: the queue never runs dry.\<close>

lemma handle_fault:
  assumes "invar q" and "handle f q s = Inl e"
  shows "foldR f (contents q) s = Inl e"
  using assms by (cases "foldR f (contents q) s") (auto simp: handle_contents)

end

interpretation eq: request_channel eq_empty eq_push eq_handle requests eq_ok
proof unfold_locales
  fix q :: "'a eventq" and f :: "'a \<Rightarrow> 'b \<Rightarrow> 'b result" and s x
  show "eq_ok q \<Longrightarrow> eq_handle f q s = mapR (Pair eq_empty) (foldR f (requests q) s)"
    by (cases "foldR f (requests q) s") (simp_all add: eq_handle_def eq_ok_def drain_all eq_empty_def)
qed (simp_all add: eq_empty_def eq_ok_def eq_push_def)

end
