(* ===== verification/Database_State.thy ===== *)
theory Database_State
  imports Event_Queue
begin

text \<open>
  The state of the class of \<^verbatim>\<open>database.hh\<close>: the two request channels other threads write to, the
  network configuration, and the two tables behind the SQL connection. The gateway thread uses
  only \<^verbatim>\<open>createDHCP\<close> and \<^verbatim>\<open>updateTime\<close>; the handlers are in the theory Database.
\<close>

section \<open>Requests\<close>

text \<open>The program has one gateway object, so the pointer each request carries to it is left out.\<close>

record update_time =
  ut_mac :: ether_addr
  ut_ip :: in_addr
  ut_UTC :: u64

record dhcp_request =
  dr_mac :: ether_addr
  dr_transID :: u32
  dr_mtu :: u16
  dr_isDiscover :: bool

section \<open>Tables\<close>

text \<open>Rows in the order the server scans them; \<open>None\<close> is SQL's NULL.\<close>

record static_ip_row =
  sr_ip :: string
  sr_mac :: string
  sr_isStatic :: bool

record user_row =
  ur_user :: string
  ur_ip :: "string option"
  ur_mac :: string
  ur_accessed :: int

record database =
  createDHCPRequestQueue :: "dhcp_request eventq"
  updateTimeQueue :: "update_time eventq"
  gatewayIP :: in_addr
  subnetMask :: in_addr
  dnsList :: "in_addr list"
  db_timeout :: u32
  static_ip :: "static_ip_row list"
  user :: "user_row list"
  db_termEvent :: nat
  db_gotExit :: bool

section \<open>Sending requests\<close>

definition createDHCP :: "dhcp_request \<Rightarrow> database \<Rightarrow> database" where
  "createDHCP request d = d\<lparr>createDHCPRequestQueue := eq_push request (createDHCPRequestQueue d)\<rparr>"

definition updateTime :: "update_time \<Rightarrow> database \<Rightarrow> database" where
  "updateTime request d = d\<lparr>updateTimeQueue := eq_push request (updateTimeQueue d)\<rparr>"

text \<open>Both channels agree with their counters.\<close>

definition channels_ok :: "database \<Rightarrow> bool" where
  "channels_ok d \<longleftrightarrow> eq_ok (createDHCPRequestQueue d) \<and> eq_ok (updateTimeQueue d)"

lemma createDHCP_channels: "channels_ok d \<Longrightarrow> channels_ok (createDHCP r d)"
  by (simp add: channels_ok_def createDHCP_def eq.invar_push)

lemma updateTime_channels: "channels_ok d \<Longrightarrow> channels_ok (updateTime r d)"
  by (simp add: channels_ok_def updateTime_def eq.invar_push)

end
