(* ===== verification/Gateway.thy ===== *)
theory Gateway
  imports ARP DHCP ICMP Unordered_Map Database_State
begin

text \<open>
  The state of the class of \<^verbatim>\<open>gateway.hh\<close>, the operations other threads call, the handlers the
  event loop runs for them. The pointers of the user table and of the pending
  user requests point into \<open>heap\<close>; the invariant says that every allocated block is owned by exactly
  one of them, and the lemmas that every operation keeps it, so no handler touches a freed block,
  frees one twice or leaks one.
\<close>

section \<open>State\<close>

record userInfo =
  ui_ip :: in_addr
  user_mac :: ether_addr
  last_access :: u64
  timeout :: u64

type_synonym ptr = nat

record gateway =
  inDev :: device
  outDev :: device
  staticIPMap :: "(u32, ether_addr) umap"
  userMap :: "(u32, ptr) umap"
  heap :: "(ptr, userInfo) umap"
  staticIPAddRequest :: "(in_addr \<times> ether_addr) eventq"
  staticIPDelRequest :: "in_addr eventq"
  userAddRequest :: "ptr eventq"
  userDelRequest :: "in_addr eventq"
  sendPacketRequestQueue :: "packet eventq"
  termEvent :: nat
  gotExit :: bool

text \<open>The constructor once both devices are open; all \<^verbatim>\<open>eventfd\<close> counters start at 0.\<close>

definition Gateway_new :: "device \<Rightarrow> device \<Rightarrow> gateway" where
  "Gateway_new in_dev out_dev =
     \<lparr>inDev = in_dev, outDev = out_dev, staticIPMap = um_empty, userMap = um_empty, heap = um_empty,
      staticIPAddRequest = eq_empty, staticIPDelRequest = eq_empty, userAddRequest = eq_empty,
      userDelRequest = eq_empty, sendPacketRequestQueue = eq_empty, termEvent = 0, gotExit = False\<rparr>"

section \<open>Pointers\<close>

definition deref :: "(ptr, userInfo) umap \<Rightarrow> ptr \<Rightarrow> userInfo result" where
  "deref hp p = (case um_find hp p of None \<Rightarrow> Inl DanglingPointer | Some i \<Rightarrow> Inr i)"

definition free_block :: "(ptr, userInfo) umap \<Rightarrow> ptr \<Rightarrow> (ptr, userInfo) umap result" where
  "free_block hp p = (case um_find hp p of None \<Rightarrow> Inl DanglingPointer | Some _ \<Rightarrow> Inr (um_erase p hp))"

section \<open>Operations called by other threads\<close>

definition addStaticIP :: "in_addr \<Rightarrow> ether_addr \<Rightarrow> gateway \<Rightarrow> gateway" where
  "addStaticIP ip mac g = g\<lparr>staticIPAddRequest := eq_push (ip, mac) (staticIPAddRequest g)\<rparr>"

definition delStaticIP :: "in_addr \<Rightarrow> gateway \<Rightarrow> gateway" where
  "delStaticIP ip g = g\<lparr>staticIPDelRequest := eq_push ip (staticIPDelRequest g)\<rparr>"

text \<open>\<open>copy\<close> is what \<^verbatim>\<open>malloc\<close> returns; a null pointer is not checked before the \<^verbatim>\<open>memcpy\<close>.\<close>

definition addUserInfo :: "ptr option \<Rightarrow> userInfo \<Rightarrow> gateway \<Rightarrow> gateway result" where
  "addUserInfo copy info g =
     (case copy of
        None \<Rightarrow> Inl NullPointer
      | Some p \<Rightarrow> Inr (g\<lparr>heap := um_insert p info (um_erase p (heap g)),
                         userAddRequest := eq_push p (userAddRequest g)\<rparr>))"

definition delUserInfo :: "in_addr \<Rightarrow> gateway \<Rightarrow> gateway" where
  "delUserInfo ip g = g\<lparr>userDelRequest := eq_push ip (userDelRequest g)\<rparr>"

definition sendPacketRequest :: "packet \<Rightarrow> gateway \<Rightarrow> gateway" where
  "sendPacketRequest packet g =
     g\<lparr>sendPacketRequestQueue := eq_push packet (sendPacketRequestQueue g)\<rparr>"

definition terminate :: "gateway \<Rightarrow> gateway" where
  "terminate g = g\<lparr>termEvent := termEvent g + 1\<rparr>"

section \<open>Handlers of the event loop\<close>

definition terminate_gateway :: "gateway \<Rightarrow> gateway" where
  "terminate_gateway g = g\<lparr>termEvent := 0, gotExit := True\<rparr>"

definition add_static_ip_step ::
  "in_addr \<times> ether_addr \<Rightarrow> (u32, ether_addr) umap \<Rightarrow> (u32, ether_addr) umap" where
  "add_static_ip_step data m =
     (let m = (if um_size m > 0 then um_erase (s_addr (fst data)) m else m)
      in um_insert (s_addr (fst data)) (snd data) m)"

definition add_static_ip :: "gateway \<Rightarrow> gateway result" where
  "add_static_ip g =
     mapR (\<lambda>(q, m). g\<lparr>staticIPAddRequest := q, staticIPMap := m\<rparr>)
       (eq_handle (\<lambda>data m. Inr (add_static_ip_step data m)) (staticIPAddRequest g) (staticIPMap g))"

definition del_static_ip :: "gateway \<Rightarrow> gateway result" where
  "del_static_ip g =
     mapR (\<lambda>(q, m). g\<lparr>staticIPDelRequest := q, staticIPMap := m\<rparr>)
       (eq_handle (\<lambda>key m. Inr (um_erase (s_addr key) m)) (staticIPDelRequest g) (staticIPMap g))"

type_synonym user_table = "(u32, ptr) umap \<times> (ptr, userInfo) umap"

definition add_user_step :: "ptr \<Rightarrow> user_table \<Rightarrow> user_table result" where
  "add_user_step info t =
     (case t of (users, hp) \<Rightarrow>
        bindR (deref hp info) (\<lambda>i.
        bindR (case um_find users (s_addr (ui_ip i)) of
                 None \<Rightarrow> Inr (users, hp)
               | Some old \<Rightarrow>
                   bindR (deref hp old) (\<lambda>_.
                   bindR (free_block hp old) (\<lambda>hp.
                     Inr (um_erase (s_addr (ui_ip i)) users, hp))))
          (\<lambda>(users, hp).
        bindR (deref hp info) (\<lambda>i.
          Inr (um_insert (s_addr (ui_ip i)) info users, hp)))))"

definition add_user :: "gateway \<Rightarrow> gateway result" where
  "add_user g =
     mapR (\<lambda>(q, users, hp). g\<lparr>userAddRequest := q, userMap := users, heap := hp\<rparr>)
       (eq_handle add_user_step (userAddRequest g) (userMap g, heap g))"

definition del_user_step :: "in_addr \<Rightarrow> user_table \<Rightarrow> user_table result" where
  "del_user_step ip t =
     (case t of (users, hp) \<Rightarrow>
        (case um_find users (s_addr ip) of
           None \<Rightarrow> Inr (users, hp)
         | Some info \<Rightarrow>
             bindR (deref hp info) (\<lambda>_.
             bindR (free_block hp info) (\<lambda>hp. Inr (um_erase (s_addr ip) users, hp)))))"

definition del_user :: "gateway \<Rightarrow> gateway result" where
  "del_user g =
     mapR (\<lambda>(q, users, hp). g\<lparr>userDelRequest := q, userMap := users, heap := hp\<rparr>)
       (eq_handle del_user_step (userDelRequest g) (userMap g, heap g))"

definition send_packet :: "gateway \<Rightarrow> gateway result" where
  "send_packet g =
     mapR (\<lambda>(q, dev). g\<lparr>sendPacketRequestQueue := q, inDev := dev\<rparr>)
       (eq_handle (\<lambda>packet dev. writePacket dev (inMemory packet) (getLength packet))
          (sendPacketRequestQueue g) (inDev g))"

section \<open>Ownership of the user blocks\<close>

text \<open>Every block on the heap is owned by one entry of the user table or by one pending request,
  and a table entry is filed under the address its block holds.\<close>

definition heap_ok :: "(u32, ptr) umap \<Rightarrow> ptr list \<Rightarrow> (ptr, userInfo) umap \<Rightarrow> bool" where
  "heap_ok users q hp \<longleftrightarrow> um_ok users \<and> um_ok hp \<and> distinct (map snd users @ q) \<and>
     set (map snd users @ q) = set (map fst hp) \<and>
     list_all (\<lambda>(k, p). map_option (\<lambda>i. s_addr (ui_ip i)) (um_find hp p) = Some k) users"

text \<open>What the table means: the user registered for an address.\<close>

definition user_view :: "user_table \<Rightarrow> u32 \<Rightarrow> userInfo option" where
  "user_view t k = (case um_find (fst t) k of None \<Rightarrow> None | Some p \<Rightarrow> um_find (snd t) p)"

lemma user_view_pair:
  "user_view (users, hp) k = (case um_find users k of None \<Rightarrow> None | Some p \<Rightarrow> um_find hp p)"
  unfolding user_view_def fst_conv snd_conv ..

lemma um_find_key: "p \<in> set (map fst hp) \<longleftrightarrow> um_find hp p \<noteq> None"
  by (auto simp: um_find_def map_of_eq_None_iff)

lemma um_find_entry: "um_ok m \<Longrightarrow> um_find m k = Some v \<longleftrightarrow> (k, v) \<in> set m"
  by (simp add: um_ok_def um_find_def)

lemma heap_ok_user:
  assumes "heap_ok users q hp" and "um_find users k = Some p"
  shows "\<exists>i. um_find hp p = Some i \<and> s_addr (ui_ip i) = k"
  using assms by (auto simp: heap_ok_def um_find_entry list_all_iff)

lemma heap_ok_request: "heap_ok users q hp \<Longrightarrow> p \<in> set q \<Longrightarrow> \<exists>i. um_find hp p = Some i"
  using um_find_key [of p hp] by (auto simp: heap_ok_def)

lemma heap_ok_owner:
  assumes "heap_ok users q hp" and "um_find users k = Some p"
  shows "p \<notin> set q" and "um_find users k' = Some p \<Longrightarrow> k' = k"
proof -
  show "p \<notin> set q" using assms um_find_in_values [OF assms(2)] by (auto simp: heap_ok_def)
  show "k' = k" if "um_find users k' = Some p"
    using heap_ok_user [OF assms] heap_ok_user [OF assms(1) that] by auto
qed

lemma um_erase_keys: "set (map fst (um_erase k m)) = set (map fst m) - {k}"
  by (auto simp: um_erase_def)

lemma set_um_erase: "set (um_erase k m) = {e \<in> set m. fst e \<noteq> k}"
  by (auto simp: um_erase_def)

text \<open>Dropping a user frees its block and nothing else.\<close>

lemma heap_ok_drop:
  assumes ok: "heap_ok users q hp" and p: "um_find users k = Some p"
  shows "heap_ok (um_erase k users) q (um_erase p hp)"
proof -
  have users: "um_ok users" "um_ok hp" "distinct (map snd users)" using ok by (auto simp: heap_ok_def)
  note vals = um_erase_values [OF users(1) p users(3)]
  have "list_all (\<lambda>(k, p). map_option (\<lambda>i. s_addr (ui_ip i)) (um_find (um_erase p' hp) p) = Some k)
      (um_erase k users)" if "p' = p" for p'
    using ok heap_ok_owner(2) [OF ok p]
    by (auto simp: heap_ok_def list_all_iff set_um_erase that um_find_entry)
  then show ?thesis
    using ok vals heap_ok_owner(1) [OF ok p]
    by (auto simp: heap_ok_def um.invar_erase um_erase_keys simp del: set_map)
qed

lemma heap_ok_take:
  assumes ok: "heap_ok users (p # q) hp" and i: "um_find hp p = Some i"
    and none: "um_find users (s_addr (ui_ip i)) = None"
  shows "heap_ok (um_insert (s_addr (ui_ip i)) p users) q hp"
proof -
  have "um_ok users" using ok by (simp add: heap_ok_def)
  then have "um_ok ((s_addr (ui_ip i), p) # users)"
    using um.invar_insert [of users "s_addr (ui_ip i)" p] by (simp add: um_insert_absent [OF none])
  then show ?thesis using ok i by (auto simp: heap_ok_def um_insert_absent [OF none])
qed

section \<open>The user handlers\<close>

lemma free_block_ok: "um_find hp p = Some i \<Longrightarrow> free_block hp p = Inr (um_erase p hp)"
  by (simp add: free_block_def)

lemma deref_ok: "um_find hp p = Some i \<Longrightarrow> deref hp p = Inr i"
  by (simp add: deref_def)

text \<open>What the pending requests point to.\<close>

definition blocks :: "(ptr, userInfo) umap \<Rightarrow> ptr list \<Rightarrow> userInfo list" where
  "blocks hp q = map (\<lambda>p. the (um_find hp p)) q"

definition put_user :: "userInfo \<Rightarrow> (u32 \<Rightarrow> userInfo option) \<Rightarrow> u32 \<Rightarrow> userInfo option" where
  "put_user i m = m(s_addr (ui_ip i) := Some i)"

lemma blocks_Cons: "um_find hp p = Some i \<Longrightarrow> blocks hp (p # q) = i # blocks hp q"
  by (simp add: blocks_def)

lemma blocks_erase: "p \<notin> set q \<Longrightarrow> blocks (um_erase p hp) q = blocks hp q"
  by (auto simp: blocks_def)

lemma user_view_drop:
  assumes ok: "heap_ok users q hp" and p: "um_find users k = Some p"
  shows "user_view (um_erase k users, um_erase p hp) = (user_view (users, hp))(k := None)"
proof
  fix k'
  show "user_view (um_erase k users, um_erase p hp) k' = ((user_view (users, hp))(k := None)) k'"
    using heap_ok_owner(2) [OF ok p, of k'] by (auto simp: user_view_pair split: option.splits)
qed

lemma add_user_step_ok:
  assumes ok: "heap_ok users (p # q) hp" and i: "um_find hp p = Some i"
  shows "\<exists>users' hp'. add_user_step p (users, hp) = Inr (users', hp') \<and> heap_ok users' q hp' \<and>
    user_view (users', hp') = put_user i (user_view (users, hp)) \<and> blocks hp' q = blocks hp q"
proof (cases "um_find users (s_addr (ui_ip i))")
  case None
  have "user_view (um_insert (s_addr (ui_ip i)) p users, hp) = put_user i (user_view (users, hp))"
    using None i by (auto simp: user_view_pair put_user_def fun_eq_iff)
  then show ?thesis
    using None i heap_ok_take [OF ok i None] by (simp add: add_user_step_def deref_ok)
next
  case (Some old)
  let ?k = "s_addr (ui_ip i)"
  obtain j where j: "um_find hp old = Some j" using heap_ok_user [OF ok Some] by blast
  have old: "old \<noteq> p" "old \<notin> set q" using heap_ok_owner(1) [OF ok Some] by auto
  have i': "um_find (um_erase old hp) p = Some i" using i old by simp
  have none: "um_find (um_erase ?k users) ?k = None" by simp
  note ok' = heap_ok_take [OF heap_ok_drop [OF ok Some] i' none]
  have "user_view (um_insert ?k p (um_erase ?k users), um_erase old hp) k =
      put_user i (user_view (um_erase ?k users, um_erase old hp)) k" for k
    using i' by (auto simp: user_view_pair put_user_def)
  then have "user_view (um_insert ?k p (um_erase ?k users), um_erase old hp) =
      put_user i (user_view (users, hp))"
    unfolding user_view_drop [OF ok Some] by (auto simp: put_user_def)
  then show ?thesis
    using Some i i' j ok' old
    by (simp add: add_user_step_def deref_ok free_block_ok blocks_erase)
qed

lemma add_user_steps:
  assumes "heap_ok users q hp"
  shows "\<exists>users' hp'. foldR add_user_step q (users, hp) = Inr (users', hp') \<and> heap_ok users' [] hp' \<and>
    user_view (users', hp') = fold put_user (blocks hp q) (user_view (users, hp))"
  using assms
proof (induction q arbitrary: users hp)
  case (Cons p q)
  obtain i where i: "um_find hp p = Some i" using heap_ok_request [OF Cons.prems, of p] by auto
  from add_user_step_ok [OF Cons.prems i] obtain users1 hp1 where
    1: "add_user_step p (users, hp) = Inr (users1, hp1)" "heap_ok users1 q hp1"
      "user_view (users1, hp1) = put_user i (user_view (users, hp))" "blocks hp1 q = blocks hp q"
    by blast
  from Cons.IH [OF 1(2)] 1 show ?case by (auto simp: blocks_Cons [OF i])
qed (simp add: blocks_def)

lemma del_user_step_ok:
  assumes ok: "heap_ok users q hp"
  shows "\<exists>users' hp'. del_user_step ip (users, hp) = Inr (users', hp') \<and> heap_ok users' q hp' \<and>
    user_view (users', hp') = (user_view (users, hp))(s_addr ip := None) \<and> blocks hp' q = blocks hp q"
proof (cases "um_find users (s_addr ip)")
  case None
  then show ?thesis using ok by (auto simp: del_user_step_def user_view_pair)
next
  case (Some p)
  obtain i where "um_find hp p = Some i" using heap_ok_user [OF ok Some] by blast
  then show ?thesis
    using Some heap_ok_drop [OF ok Some] user_view_drop [OF ok Some] heap_ok_owner(1) [OF ok Some]
    by (simp add: del_user_step_def deref_ok free_block_ok blocks_erase)
qed

lemma del_user_steps:
  assumes "heap_ok users q hp"
  shows "\<exists>users' hp'. foldR del_user_step ips (users, hp) = Inr (users', hp') \<and> heap_ok users' q hp' \<and>
    user_view (users', hp') = (\<lambda>k. if k \<in> s_addr ` set ips then None else user_view (users, hp) k) \<and>
    blocks hp' q = blocks hp q"
  using assms
proof (induction ips arbitrary: users hp)
  case (Cons ip ips)
  from del_user_step_ok [OF Cons.prems, of ip] obtain users1 hp1 where
    1: "del_user_step ip (users, hp) = Inr (users1, hp1)" "heap_ok users1 q hp1"
      "user_view (users1, hp1) = (user_view (users, hp))(s_addr ip := None)"
      "blocks hp1 q = blocks hp q"
    by blast
  from Cons.IH [OF 1(2)] 1 show ?case by (auto simp: fun_eq_iff)
qed simp

section \<open>The invariant of the gateway\<close>

definition sendable :: "packet \<Rightarrow> bool" where
  "sendable p \<longleftrightarrow> wf_packet p \<and> ETH_ALEN \<le> writtenByte p"

definition gateway_ok :: "gateway \<Rightarrow> bool" where
  "gateway_ok g \<longleftrightarrow> eq_ok (staticIPAddRequest g) \<and> eq_ok (staticIPDelRequest g) \<and>
     eq_ok (userAddRequest g) \<and> eq_ok (userDelRequest g) \<and> eq_ok (sendPacketRequestQueue g) \<and>
     um_ok (staticIPMap g) \<and> heap_ok (userMap g) (requests (userAddRequest g)) (heap g) \<and>
     list_all sendable (requests (sendPacketRequestQueue g))"

definition registered :: "gateway \<Rightarrow> u32 \<Rightarrow> userInfo option" where
  "registered g = user_view (userMap g, heap g)"

definition requested :: "gateway \<Rightarrow> userInfo list" where
  "requested g = blocks (heap g) (requests (userAddRequest g))"

lemma Gateway_new_ok: "gateway_ok (Gateway_new i o')"
  by (simp add: gateway_ok_def Gateway_new_def eq.invar_empty eq.contents_empty um.invar_empty heap_ok_def)
    (simp add: um_empty_def)

lemma channel_ops_ok:
  assumes "gateway_ok g"
  shows "gateway_ok (addStaticIP ip mac g)" and "gateway_ok (delStaticIP ip g)"
    and "gateway_ok (delUserInfo ip g)" and "gateway_ok (terminate g)"
    and "gateway_ok (terminate_gateway g)" and "sendable p \<Longrightarrow> gateway_ok (sendPacketRequest p g)"
  using assms by (auto simp: gateway_ok_def addStaticIP_def delStaticIP_def delUserInfo_def
      terminate_def terminate_gateway_def sendPacketRequest_def eq.invar_push eq.contents_push)

lemma heap_ok_alloc:
  assumes "heap_ok users q hp" and "um_find hp p = None"
  shows "heap_ok users (q @ [p]) (um_insert p i hp)"
proof -
  have p: "p \<notin> set (map fst hp)" using assms(2) um_find_key [of p hp] by simp
  have "um_ok ((p, i) # hp)"
    using assms um.invar_insert [of hp p i] by (simp add: heap_ok_def um_insert_absent)
  moreover have "p \<noteq> p'" if "(k, p') \<in> set users" for k p'
    using assms(1) p that by (force simp: heap_ok_def)
  ultimately show ?thesis
    using assms p by (auto simp: heap_ok_def um_insert_absent list_all_iff)
qed

lemma addUserInfo_ok:
  assumes ok: "gateway_ok g" and fresh: "um_find (heap g) p = None"
  shows "\<exists>g'. addUserInfo (Some p) i g = Inr g' \<and> gateway_ok g' \<and> registered g' = registered g \<and>
    requested g' = requested g @ [i] \<and> staticIPMap g' = staticIPMap g \<and> userMap g' = userMap g"
proof -
  have hp: "heap_ok (userMap g) (requests (userAddRequest g)) (heap g)" using ok by (simp add: gateway_ok_def)
  have "um_find (um_insert p i (heap g)) p' = um_find (heap g) p'" if "p' \<noteq> p" for p'
    using fresh that by simp
  moreover have "p' \<noteq> p" if "um_find (userMap g) k = Some p'" for k p'
    using heap_ok_user [OF hp that] fresh by auto
  ultimately have "user_view (userMap g, um_insert p i (heap g)) = user_view (userMap g, heap g)"
    by (auto simp: user_view_pair fun_eq_iff split: option.splits)
  moreover have "blocks (um_insert p i (heap g)) (requests (userAddRequest g)) =
      blocks (heap g) (requests (userAddRequest g))"
    using fresh by (auto simp: blocks_def dest: heap_ok_request [OF hp])
  ultimately show ?thesis
    using ok fresh heap_ok_alloc [OF hp fresh, of i]
    by (auto simp: addUserInfo_def um_erase_absent gateway_ok_def eq.invar_push eq.contents_push
        registered_def requested_def blocks_def)
qed

lemma add_user_ok:
  assumes ok: "gateway_ok g"
  shows "\<exists>users hp. add_user g = Inr (g\<lparr>userAddRequest := eq_empty, userMap := users, heap := hp\<rparr>) \<and>
    gateway_ok (g\<lparr>userAddRequest := eq_empty, userMap := users, heap := hp\<rparr>) \<and>
    user_view (users, hp) = fold put_user (requested g) (registered g)"
proof -
  have hp: "heap_ok (userMap g) (requests (userAddRequest g)) (heap g)" and q: "eq_ok (userAddRequest g)"
    using ok by (simp_all add: gateway_ok_def)
  from add_user_steps [OF hp] obtain users' hp' where
    "foldR add_user_step (requests (userAddRequest g)) (userMap g, heap g) = Inr (users', hp')"
    "heap_ok users' [] hp'" "user_view (users', hp') = fold put_user (requested g) (registered g)"
    by (auto simp: registered_def requested_def)
  then show ?thesis
    using ok by (intro exI [of _ users'] exI [of _ hp']) (simp add: add_user_def
        eq.handle_contents [OF q] gateway_ok_def eq.invar_empty eq.contents_empty)
qed

lemma del_user_ok:
  assumes ok: "gateway_ok g"
  shows "\<exists>users hp. del_user g = Inr (g\<lparr>userDelRequest := eq_empty, userMap := users, heap := hp\<rparr>) \<and>
    gateway_ok (g\<lparr>userDelRequest := eq_empty, userMap := users, heap := hp\<rparr>) \<and>
    user_view (users, hp) =
      (\<lambda>k. if k \<in> s_addr ` set (requests (userDelRequest g)) then None else registered g k) \<and>
    blocks hp (requests (userAddRequest g)) = requested g"
proof -
  have hp: "heap_ok (userMap g) (requests (userAddRequest g)) (heap g)" and q: "eq_ok (userDelRequest g)"
    using ok by (simp_all add: gateway_ok_def)
  from del_user_steps [OF hp, of "requests (userDelRequest g)"] obtain users' hp' where
    "foldR del_user_step (requests (userDelRequest g)) (userMap g, heap g) = Inr (users', hp')"
    "heap_ok users' (requests (userAddRequest g)) hp'"
    "user_view (users', hp') =
      (\<lambda>k. if k \<in> s_addr ` set (requests (userDelRequest g)) then None else registered g k)"
    "blocks hp' (requests (userAddRequest g)) = requested g"
    unfolding registered_def requested_def by blast
  then show ?thesis
    using ok by (intro exI [of _ users'] exI [of _ hp']) (simp add: del_user_def
        eq.handle_contents [OF q] gateway_ok_def eq.invar_empty eq.contents_empty)
qed

text \<open>The other handlers.\<close>

lemma add_static_ip_steps:
  assumes "um_ok m"
  shows "um_ok (fold add_static_ip_step ds m) \<and> um_find (fold add_static_ip_step ds m) =
    fold (\<lambda>(ip, mac) f. f(s_addr ip := Some mac)) ds (um_find m)"
  using assms
proof (induction ds arbitrary: m)
  case (Cons d ds)
  have "um_find (add_static_ip_step d m) = (um_find m)(s_addr (fst d) := Some (snd d))"
    by (rule ext) (simp only: add_static_ip_step_def Let_def um.find_guarded_replace fun_upd_apply)
  moreover have "um_ok (add_static_ip_step d m)"
    using Cons.prems by (simp add: add_static_ip_step_def Let_def um.invar_guarded_replace)
  ultimately show ?case using Cons.IH by (simp add: case_prod_beta)
qed simp

lemma add_static_ip_ok:
  assumes ok: "gateway_ok g"
  shows "\<exists>m. add_static_ip g = Inr (g\<lparr>staticIPAddRequest := eq_empty, staticIPMap := m\<rparr>) \<and>
    gateway_ok (g\<lparr>staticIPAddRequest := eq_empty, staticIPMap := m\<rparr>) \<and>
    um_find m = fold (\<lambda>(ip, mac) f. f(s_addr ip := Some mac)) (requests (staticIPAddRequest g))
      (um_find (staticIPMap g))"
  using ok add_static_ip_steps [of "staticIPMap g" "requests (staticIPAddRequest g)"]
  by (auto simp: add_static_ip_def eq.handle_contents gateway_ok_def foldR_total eq.invar_empty)

lemma um_erases:
  "um_ok m \<Longrightarrow> um_ok (fold (\<lambda>ip. um_erase (s_addr ip)) ips m) \<and>
   um_find (fold (\<lambda>ip. um_erase (s_addr ip)) ips m) =
     (\<lambda>k. if k \<in> s_addr ` set ips then None else um_find m k)"
  by (induction ips arbitrary: m) (auto simp: um.invar_erase fun_eq_iff)

lemma del_static_ip_ok:
  assumes ok: "gateway_ok g"
  shows "\<exists>m. del_static_ip g = Inr (g\<lparr>staticIPDelRequest := eq_empty, staticIPMap := m\<rparr>) \<and>
    gateway_ok (g\<lparr>staticIPDelRequest := eq_empty, staticIPMap := m\<rparr>) \<and>
    um_find m = (\<lambda>k. if k \<in> s_addr ` set (requests (staticIPDelRequest g)) then None
      else um_find (staticIPMap g) k)"
  using ok um_erases [of "staticIPMap g" "requests (staticIPDelRequest g)"]
  by (auto simp: del_static_ip_def eq.handle_contents gateway_ok_def foldR_total eq.invar_empty)

lemma send_packet_steps:
  "list_all sendable ps \<Longrightarrow>
   foldR (\<lambda>packet dev. writePacket dev (inMemory packet) (getLength packet)) ps d =
     Inr (fold (\<lambda>p d. sent d (frame p)) ps d)"
  by (induction ps arbitrary: d) (simp_all add: sendable_def writePacket_frame)

lemma sent_all:
  "tx (fold (\<lambda>p d. sent d (frame p)) ps d) =
     tx d @ map (\<lambda>p. \<lparr>sc_ifindex = devID d, sc_addr = take 6 (frame p), sc_data = frame p\<rparr>) ps"
  "devID (fold (\<lambda>p d. sent d (frame p)) ps d) = devID d"
  "rx (fold (\<lambda>p d. sent d (frame p)) ps d) = rx d"
  "handle_of (fold (\<lambda>p d. sent d (frame p)) ps d) = handle_of d"
  by (induction ps arbitrary: d) (simp_all add: sent_def)

lemma send_packet_ok:
  assumes ok: "gateway_ok g"
  defines "d \<equiv> fold (\<lambda>p d. sent d (frame p)) (requests (sendPacketRequestQueue g)) (inDev g)"
  shows "send_packet g = Inr (g\<lparr>sendPacketRequestQueue := eq_empty, inDev := d\<rparr>)"
    and "gateway_ok (g\<lparr>sendPacketRequestQueue := eq_empty, inDev := d\<rparr>)"
  using ok by (auto simp: d_def send_packet_def eq.handle_contents gateway_ok_def send_packet_steps
      eq.invar_empty eq.contents_empty)

section \<open>Properties\<close>

text \<open>
  C5: The user handler never touches freed memory, never frees a block twice and never leaks one,
  and it registers exactly what was asked for: on a gateway that satisfies the invariant it
  returns, keeps the invariant, empties the request queue and leaves for every address the last
  user requested for it, or the user registered before if there was no request. Nothing but the
  queue, the table and the heap changes.
\<close>

theorem add_user_registers:
  assumes "gateway_ok g"
  shows "\<exists>g'. add_user g = Inr g' \<and> gateway_ok g' \<and>
    registered g' = fold put_user (requested g) (registered g) \<and>
    userAddRequest g' = eq_empty \<and> requested g' = [] \<and>
    g' = g\<lparr>userAddRequest := userAddRequest g', userMap := userMap g', heap := heap g'\<rparr>"
  using add_user_ok [OF assms]
  by (auto simp: registered_def requested_def eq.contents_empty blocks_def)

definition info_a :: userInfo where
  "info_a = \<lparr>ui_ip = \<lparr>s_addr = 5\<rparr>, user_mac = EtherAddr 0 0 0 0 0 1, last_access = 0, timeout = 10\<rparr>"

definition info_b :: userInfo where
  "info_b = \<lparr>ui_ip = \<lparr>s_addr = 5\<rparr>, user_mac = EtherAddr 0 0 0 0 0 2, last_access = 0, timeout = 10\<rparr>"

text \<open>A gateway with a user and a pending request for the same address.\<close>

definition sample_gateway :: gateway where
  "sample_gateway = (Gateway_new sample_dev sample_dev)
     \<lparr>staticIPMap := [(5, EtherAddr 0 0 0 0 0 9)], userMap := [(5, 1)], heap := [(1, info_a), (2, info_b)],
      userAddRequest := \<lparr>pending = 1, requests = [2]\<rparr>\<rparr>"

lemma sample_gateway_ok: "gateway_ok sample_gateway"
  by (simp add: gateway_ok_def sample_gateway_def Gateway_new_def eq_ok_def eq_empty_def um_ok_def
      heap_ok_def info_a_def info_b_def insert_commute)

theorem add_user_registers_witness:
  "registered sample_gateway 5 = Some info_a \<and>
   (\<exists>g'. add_user sample_gateway = Inr g' \<and> gateway_ok g' \<and> registered g' 5 = Some info_b)"
proof -
  have "requested sample_gateway = [info_b]"
    by (simp add: requested_def sample_gateway_def blocks_def)
  moreover have "registered sample_gateway 5 = Some info_a"
    by (simp add: registered_def sample_gateway_def user_view_pair)
  ultimately show ?thesis
    using add_user_registers [OF sample_gateway_ok] by (auto simp: put_user_def info_b_def)
qed

text \<open>
  The removal handler frees exactly the removed users: it returns, keeps the invariant,
  empties its queue, and afterwards no requested address has a user while every other address
  has the user it had. Users still waiting to be added are not affected.
\<close>

theorem del_user_removes:
  assumes "gateway_ok g"
  shows "\<exists>g'. del_user g = Inr g' \<and> gateway_ok g' \<and> userDelRequest g' = eq_empty \<and>
    requested g' = requested g \<and>
    (\<forall>k. registered g' k =
      (if k \<in> s_addr ` set (requests (userDelRequest g)) then None else registered g k))"
proof -
  from del_user_ok [OF assms] obtain users hp where
    "del_user g = Inr (g\<lparr>userDelRequest := eq_empty, userMap := users, heap := hp\<rparr>)"
    "gateway_ok (g\<lparr>userDelRequest := eq_empty, userMap := users, heap := hp\<rparr>)"
    "user_view (users, hp) =
      (\<lambda>k. if k \<in> s_addr ` set (requests (userDelRequest g)) then None else registered g k)"
    "blocks hp (requests (userAddRequest g)) = requested g" by blast
  then show ?thesis by (simp add: registered_def requested_def)
qed

theorem del_user_removes_witness:
  "\<exists>g'. del_user (delUserInfo \<lparr>s_addr = 5\<rparr> sample_gateway) = Inr g' \<and> gateway_ok g' \<and>
    registered g' 5 = None \<and> requested g' = [info_b]"
proof -
  let ?g = "delUserInfo \<lparr>s_addr = 5\<rparr> sample_gateway"
  have "requested ?g = [info_b]" "requests (userDelRequest ?g) = [\<lparr>s_addr = 5\<rparr>]"
    by (simp_all add: requested_def delUserInfo_def sample_gateway_def blocks_def eq.contents_push
        Gateway_new_def eq.contents_empty)
  with del_user_removes [OF channel_ops_ok(3) [OF sample_gateway_ok]] show ?thesis by fastforce
qed

text \<open>
  Handing a user to the gateway copies it to fresh memory behind all earlier requests and
  changes nothing else that is visible: when the allocation gives a block that is not in use,
  the invariant is kept, the registered users are unchanged and the new user is the last
  request. A failed allocation is not checked and ends in a write through the null pointer.
\<close>

theorem addUserInfo_queues:
  assumes "gateway_ok g" and "um_find (heap g) p = None"
  shows "addUserInfo None info g = Inl NullPointer \<and>
    (\<exists>g'. addUserInfo (Some p) info g = Inr g' \<and> gateway_ok g' \<and> registered g' = registered g \<and>
      requested g' = requested g @ [info] \<and> staticIPMap g' = staticIPMap g \<and> userMap g' = userMap g)"
  using addUserInfo_ok [OF assms] by (simp add: addUserInfo_def)

theorem addUserInfo_queues_witness:
  "addUserInfo None info_a sample_gateway = Inl NullPointer \<and>
   (\<exists>g'. addUserInfo (Some 3) info_a sample_gateway = Inr g' \<and> gateway_ok g' \<and>
     requested g' = [info_b, info_a])"
proof -
  have "requested sample_gateway = [info_b]" "um_find (heap sample_gateway) 3 = None"
    by (simp_all add: requested_def sample_gateway_def blocks_def)
  with addUserInfo_queues [OF sample_gateway_ok, of 3 info_a] show ?thesis by auto
qed

text \<open>
  The static address handlers implement a finite map: an added address ends up with the
  MAC of the last request for it, although \<^verbatim>\<open>insert\<close> alone would keep the old one; a removed
  address ends up without one; no other address changes; both handlers return, keep the
  invariant and leave the users alone.
\<close>

theorem static_ip_handlers:
  assumes "gateway_ok g"
  shows "(\<exists>g'. add_static_ip g = Inr g' \<and> gateway_ok g' \<and> staticIPAddRequest g' = eq_empty \<and>
      um_find (staticIPMap g') = fold (\<lambda>(ip, mac) f. f(s_addr ip := Some mac))
        (requests (staticIPAddRequest g)) (um_find (staticIPMap g)) \<and> registered g' = registered g) \<and>
    (\<exists>g'. del_static_ip g = Inr g' \<and> gateway_ok g' \<and> staticIPDelRequest g' = eq_empty \<and>
      um_find (staticIPMap g') = (\<lambda>k. if k \<in> s_addr ` set (requests (staticIPDelRequest g)) then None
        else um_find (staticIPMap g) k) \<and> registered g' = registered g)"
  using add_static_ip_ok [OF assms] del_static_ip_ok [OF assms] by (auto simp: registered_def)

theorem static_ip_handlers_witness:
  "\<exists>g'. add_static_ip (addStaticIP \<lparr>s_addr = 5\<rparr> (EtherAddr 1 1 1 1 1 1) sample_gateway) = Inr g' \<and>
    um_find (staticIPMap g') 5 = Some (EtherAddr 1 1 1 1 1 1)"
proof -
  let ?g = "addStaticIP \<lparr>s_addr = 5\<rparr> (EtherAddr 1 1 1 1 1 1) sample_gateway"
  have "requests (staticIPAddRequest ?g) = [(\<lparr>s_addr = 5\<rparr>, EtherAddr 1 1 1 1 1 1)]"
    by (simp add: addStaticIP_def sample_gateway_def eq.contents_push Gateway_new_def eq.contents_empty)
  with static_ip_handlers [OF channel_ops_ok(1) [OF sample_gateway_ok, of "\<lparr>s_addr = 5\<rparr>"
        "EtherAddr 1 1 1 1 1 1"]]
  show ?thesis by auto
qed

text \<open>
  The send handler puts the queued packets on the inside wire in the order they were
  queued, each as its frame addressed to the frame's own destination, and nothing else;
  it returns and keeps the invariant.
\<close>

theorem send_packet_in_order:
  assumes "gateway_ok g"
  shows "\<exists>g'. send_packet g = Inr g' \<and> gateway_ok g' \<and> sendPacketRequestQueue g' = eq_empty \<and>
    tx (inDev g') = tx (inDev g) @
      map (\<lambda>p. \<lparr>sc_ifindex = devID (inDev g), sc_addr = take 6 (frame p), sc_data = frame p\<rparr>)
        (requests (sendPacketRequestQueue g)) \<and>
    outDev g' = outDev g \<and> rx (inDev g') = rx (inDev g)"
  using send_packet_ok [OF assms] by (simp add: sent_all)

theorem send_packet_in_order_witness:
  "\<exists>g'. send_packet (sendPacketRequest long_frame sample_gateway) = Inr g' \<and>
    tx (inDev g') = [\<lparr>sc_ifindex = 3, sc_addr = [1, 2, 3, 4, 5, 6], sc_data = inMemory long_frame\<rparr>]"
proof -
  let ?g = "sendPacketRequest long_frame sample_gateway"
  have "sendable long_frame" by (simp add: sendable_def long_frame_def wf_packet_def sizes)
  then have ok: "gateway_ok ?g" by (rule channel_ops_ok(6) [OF sample_gateway_ok])
  have "requests (sendPacketRequestQueue ?g) = [long_frame]" "devID (inDev ?g) = 3" "tx (inDev ?g) = []"
    by (simp_all add: sendPacketRequest_def sample_gateway_def eq.contents_push Gateway_new_def
        eq.contents_empty sample_dev_def)
  moreover have "frame long_frame = inMemory long_frame" "take 6 (inMemory long_frame) = [1, 2, 3, 4, 5, 6]"
    by (simp_all add: frame_def long_frame_def)
  ultimately show ?thesis using send_packet_in_order [OF ok] by auto
qed

end
