(* ===== verification/Inet.thy ===== *)
theory Inet
  imports Prelude
begin

text \<open>
  The library function \<^verbatim>\<open>inet_addr\<close>: one to four numbers separated by dots, each decimal, octal or
  hexadecimal as in C, the last one filling the remaining bytes; the address in network byte
  order, and \<^verbatim>\<open>INADDR_NONE\<close> for anything else. Used for addresses in the database and on the command line.
\<close>

definition INADDR_NONE :: u32 where
  "INADDR_NONE = 0xFFFFFFFF"

definition digit_value :: "nat \<Rightarrow> char \<Rightarrow> nat option" where
  "digit_value base c =
     (let n = of_char c :: nat;
          v = (if 48 \<le> n \<and> n \<le> 57 then n - 48
               else if 97 \<le> n \<and> n \<le> 102 then n - 87
               else if 65 \<le> n \<and> n \<le> 70 then n - 55 else 16)
      in if v < base then Some v else None)"

fun take_digits :: "nat \<Rightarrow> nat \<Rightarrow> string \<Rightarrow> nat \<times> string" where
  "take_digits base acc [] = (acc, [])"
| "take_digits base acc (c # cs) =
     (case digit_value base c of
        None \<Rightarrow> (acc, c # cs)
      | Some v \<Rightarrow> take_digits base (base * acc + v) cs)"

text \<open>A number in C's notation; it has to start with a decimal digit.\<close>

definition read_number :: "string \<Rightarrow> (nat \<times> string) option" where
  "read_number s =
     (case s of
        [] \<Rightarrow> None
      | c # cs \<Rightarrow>
          if digit_value 10 c = None then None
          else if c = CHR ''0'' then
            (case cs of
               x # d # ds \<Rightarrow>
                 if (x = CHR ''x'' \<or> x = CHR ''X'') \<and> digit_value 16 d \<noteq> None
                 then Some (take_digits 16 0 (d # ds)) else Some (take_digits 8 0 cs)
             | _ \<Rightarrow> Some (take_digits 8 0 cs))
          else Some (take_digits 10 0 s))"

definition is_space :: "char \<Rightarrow> bool" where
  "is_space c \<longleftrightarrow> c = CHR '' '' \<or> of_char c \<in> {9 :: nat, 10, 11, 12, 13}"

text \<open>The numbers of the whole text; \<open>n\<close> more parts may follow.\<close>

fun read_parts :: "nat \<Rightarrow> string \<Rightarrow> nat list option" where
  "read_parts n s =
     (case read_number s of
        None \<Rightarrow> None
      | Some (v, []) \<Rightarrow> Some [v]
      | Some (v, c # cs) \<Rightarrow>
          if c = CHR ''.'' then
            (case n of 0 \<Rightarrow> None | Suc m \<Rightarrow> map_option (Cons v) (read_parts m cs))
          else if is_space c then Some [v] else None)"

declare read_parts.simps [simp del]

definition host_addr :: "nat list \<Rightarrow> nat option" where
  "host_addr ps =
     (case ps of
        [a] \<Rightarrow> if a < 2 ^ 32 then Some a else None
      | [a, b] \<Rightarrow> if a < 256 \<and> b < 2 ^ 24 then Some (a * 2 ^ 24 + b) else None
      | [a, b, c] \<Rightarrow> if a < 256 \<and> b < 256 \<and> c < 2 ^ 16 then Some (a * 2 ^ 24 + b * 2 ^ 16 + c) else None
      | [a, b, c, d] \<Rightarrow>
          if a < 256 \<and> b < 256 \<and> c < 256 \<and> d < 256
          then Some (a * 2 ^ 24 + b * 2 ^ 16 + c * 2 ^ 8 + d) else None
      | _ \<Rightarrow> None)"

definition htonl :: "u32 \<Rightarrow> u32" where
  "htonl w = le32 (rev (bytes32 w))"

definition inet_addr :: "string \<Rightarrow> u32" where
  "inet_addr s =
     (case Option.bind (read_parts 3 s) host_addr of
        None \<Rightarrow> INADDR_NONE
      | Some n \<Rightarrow> htonl (of_nat n))"

lemma inet_addr_examples:
  "inet_addr ''143.248.48.1'' = le32 [143, 248, 48, 1]"
  "inet_addr ''143.248.48.256'' = INADDR_NONE" "inet_addr '''' = INADDR_NONE"
  by (simp_all add: inet_addr_def read_parts.simps read_number_def digit_value_def host_addr_def htonl_def
      bytes32_def INADDR_NONE_def numeral_3_eq_3 is_space_def)

end
