(* ===== verification/Database.thy ===== *)
theory Database
  imports Gateway Inet
begin

text \<open>
  The handlers of \<^verbatim>\<open>database.cpp\<close> and the queries behind them. The SQL server is outside the program:
  how it compares strings, how it counts updated rows and which statements fail are arguments; each
  prepared statement of the constructor is a function on the two tables. The gateway is passed along,
  since the handlers send requests to it.
\<close>

section \<open>The server\<close>

text \<open>\<open>collate\<close> is string equality in the tables' collation. \<open>found_rows\<close> tells whether an update
  counts the rows it matches or those it changes.\<close>

record sql_env =
  collate :: "string \<Rightarrow> string \<Rightarrow> bool"
  found_rows :: bool

section \<open>Prepared statements\<close>

text \<open>\<^verbatim>\<open>SELECT mac FROM static_ip WHERE ip = ?\<close>\<close>

definition selectMACwithIP :: "sql_env \<Rightarrow> string \<Rightarrow> database \<Rightarrow> string list" where
  "selectMACwithIP env ip d = map sr_mac (filter (\<lambda>r. collate env (sr_ip r) ip) (static_ip d))"

text \<open>\<^verbatim>\<open>SELECT ip FROM user WHERE mac = ?\<close>\<close>

definition selectUserIPfromMAC :: "sql_env \<Rightarrow> string \<Rightarrow> database \<Rightarrow> string option list" where
  "selectUserIPfromMAC env mac d = map ur_ip (filter (\<lambda>u. collate env (ur_mac u) mac) (user d))"

definition has_ip :: "sql_env \<Rightarrow> string \<Rightarrow> user_row \<Rightarrow> bool" where
  "has_ip env ip u = (case ur_ip u of None \<Rightarrow> False | Some a \<Rightarrow> collate env a ip)"

text \<open>\<^verbatim>\<open>SELECT S.ip FROM static_ip AS S WHERE S.isStatic = FALSE AND (SELECT COUNT(ip) FROM user AS U
  WHERE U.ip = S.ip) = 0\<close>\<close>

definition selectUnusedDynamicIP :: "sql_env \<Rightarrow> database \<Rightarrow> string list" where
  "selectUnusedDynamicIP env d =
     map sr_ip (filter (\<lambda>r. \<not> sr_isStatic r \<and> length (filter (has_ip env (sr_ip r)) (user d)) = 0) (static_ip d))"

text \<open>\<^verbatim>\<open>SELECT S.ip FROM static_ip AS S, user AS U WHERE S.isStatic = FALSE AND S.ip = U.ip AND
  U.accessed < ? ORDER BY U.accessed ASC\<close>\<close>

definition selectUsingDynamicIP :: "sql_env \<Rightarrow> int \<Rightarrow> database \<Rightarrow> string list" where
  "selectUsingDynamicIP env t d =
     map (\<lambda>(r, u). sr_ip r) (sort_key (\<lambda>(r, u). ur_accessed u)
       (filter (\<lambda>(r, u). \<not> sr_isStatic r \<and> has_ip env (sr_ip r) u \<and> ur_accessed u < t)
         (List.product (static_ip d) (user d))))"

text \<open>\<^verbatim>\<open>UPDATE user SET ip = NULL WHERE ip = ?\<close>\<close>

definition deleteDynamic :: "sql_env \<Rightarrow> string \<Rightarrow> database \<Rightarrow> database" where
  "deleteDynamic env ip d =
     d\<lparr>user := map (\<lambda>u. if has_ip env ip u then u\<lparr>ur_ip := None\<rparr> else u) (user d)\<rparr>"

text \<open>\<^verbatim>\<open>UPDATE user SET ip = ? WHERE mac = ?\<close>\<close>

definition insertDynamic :: "sql_env \<Rightarrow> string \<Rightarrow> string \<Rightarrow> database \<Rightarrow> database" where
  "insertDynamic env ip mac d =
     d\<lparr>user := map (\<lambda>u. if collate env (ur_mac u) mac then u\<lparr>ur_ip := Some ip\<rparr> else u) (user d)\<rparr>"

text \<open>\<^verbatim>\<open>UPDATE user SET accessed = ? WHERE mac = ?\<close>, with the number of rows.\<close>

definition updateAccessTime :: "sql_env \<Rightarrow> int \<Rightarrow> string \<Rightarrow> database \<Rightarrow> nat \<times> database" where
  "updateAccessTime env t mac d =
     (length (filter (\<lambda>u. collate env (ur_mac u) mac \<and> (found_rows env \<or> ur_accessed u \<noteq> t)) (user d)),
      d\<lparr>user := map (\<lambda>u. if collate env (ur_mac u) mac then u\<lparr>ur_accessed := t\<rparr> else u) (user d)\<rparr>)"

section \<open>Access times\<close>

text \<open>One queued update; \<open>err\<close> says that the statement throws.\<close>

definition update_time_one ::
  "sql_env \<Rightarrow> bool \<Rightarrow> update_time \<Rightarrow> database \<times> gateway \<Rightarrow> database \<times> gateway" where
  "update_time_one env err request s =
     (case s of (d, g) \<Rightarrow>
        let mac_buf = printMAC (ut_mac request) [] 32;
            (ret, d) = (if err then (0, d) else updateAccessTime env (uint (ut_UTC request)) mac_buf d)
        in if ret = 0 then (d, delUserInfo (ut_ip request) g) else (d, g))"

text \<open>The handler first empties the queue under the lock, then works on the requests; \<open>errs\<close> answers for
  each of them.\<close>

fun update_time_loop ::
  "sql_env \<Rightarrow> (nat \<Rightarrow> bool) \<Rightarrow> nat \<Rightarrow> update_time list \<Rightarrow> database \<times> gateway \<Rightarrow> database \<times> gateway" where
  "update_time_loop env errs k [] s = s"
| "update_time_loop env errs k (r # rs) s =
     update_time_loop env errs (Suc k) rs (update_time_one env (errs k) r s)"

definition update_time_handler ::
  "sql_env \<Rightarrow> (nat \<Rightarrow> bool) \<Rightarrow> database \<times> gateway \<Rightarrow> (database \<times> gateway) result" where
  "update_time_handler env errs s =
     (case s of (d, g) \<Rightarrow>
        mapR (\<lambda>(q, temp). update_time_loop env errs 0 temp (d\<lparr>updateTimeQueue := q\<rparr>, g))
          (eq_handle (\<lambda>r temp. Inr (temp @ [r])) (updateTimeQueue d) []))"

section \<open>DHCP\<close>

definition DHCP_TIMEOUT :: u32 where
  "DHCP_TIMEOUT = 7200"

definition gateway_mac_text :: string where
  "gateway_mac_text = ''78:19:f7:58:30:01''"

text \<open>What the handler needs from outside for one request: which statement throws, the time, and the
  blocks for the two packets and for the user.\<close>

record dhcp_env =
  de_err :: "nat \<Rightarrow> bool"
  de_now :: u64
  de_packet :: "byte list option"
  de_dhcp :: "byte list option"
  de_user :: "ptr option"

text \<open>A statement that throws ends the process.\<close>

definition sql :: "dhcp_env \<Rightarrow> nat \<Rightarrow> 'a \<Rightarrow> 'a result" where
  "sql e k x = (if de_err e k then Inl Exit else Inr x)"

text \<open>Choosing the address; an empty \<open>ip_str\<close> is a NULL column or an empty one. The second component is
  \<open>found\<close> with the address text.\<close>

definition choose_ip ::
  "sql_env \<Rightarrow> dhcp_env \<Rightarrow> string \<Rightarrow> database \<Rightarrow> (database \<times> string option) result" where
  "choose_ip env e ip_str d =
     (if length ip_str = 0 then
        bindR (sql e 1 (selectUnusedDynamicIP env d)) (\<lambda>emptyIP.
        case emptyIP of
          ip # _ \<Rightarrow> Inr (d, Some ip)
        | [] \<Rightarrow>
            let now = de_now e - 1000 * ucast DHCP_TIMEOUT in
            bindR (sql e 2 (selectUsingDynamicIP env (uint now) d)) (\<lambda>usingIP.
            case usingIP of
              ip # _ \<Rightarrow> bindR (sql e 3 (deleteDynamic env ip d)) (\<lambda>d. Inr (d, Some ip))
            | [] \<Rightarrow> Inr (d, None)))
      else Inr (d, Some ip_str))"

text \<open>Building and queueing the answer.\<close>

definition answer_dhcp ::
  "dhcp_env \<Rightarrow> dhcp_request \<Rightarrow> in_addr \<Rightarrow> database \<Rightarrow> gateway \<Rightarrow> gateway result" where
  "answer_dhcp e request ip_addr d g =
     bindR (readMAC gateway_mac_text) (\<lambda>gateway_mac.
     bindR (Packet_new (de_packet e) MY_PACKET_LEN) (\<lambda>packet.
     let packet = setLength packet MY_PACKET_LEN in
     bindR (Packet_new (de_dhcp e) MY_PACKET_LEN) (\<lambda>dhcp.
     let dhcp = setLength dhcp (MY_PACKET_LEN - totalHeaderLen) in
     bindR (writeResponse dhcp 0 (dr_isDiscover request) (htons (dr_mtu request)) (dr_transID request) ip_addr
       (dr_mac request) (gatewayIP d) (subnetMask d) (gatewayIP d) (dnsList d) DHCP_TIMEOUT) (\<lambda>(dhcpLen, dhcp).
     let dhcp = setLength dhcp dhcpLen in
     bindR (makePacket packet gateway_mac (dr_mac request) (gatewayIP d) ip_addr 67 68 (inMemory dhcp)
       (nat (getLength dhcp))) (\<lambda>(udpLen, packet).
     let packet = setLength packet udpLen;
         info = \<lparr>ui_ip = ip_addr, user_mac = dr_mac request, last_access = 0, timeout = ucast (db_timeout d)\<rparr> in
     bindR (if \<not> dr_isDiscover request then addUserInfo (de_user e) info g else Inr g) (\<lambda>g.
     Inr (sendPacketRequest packet g)))))))"

definition create_dhcp_one ::
  "sql_env \<Rightarrow> dhcp_env \<Rightarrow> dhcp_request \<Rightarrow> database \<times> gateway \<Rightarrow> (database \<times> gateway) result" where
  "create_dhcp_one env e request s =
     (case s of (d, g) \<Rightarrow>
        let mac_buf = printMAC (dr_mac request) [] 32 in
        bindR (sql e 0 (selectUserIPfromMAC env mac_buf d)) (\<lambda>result.
        case result of
          [] \<Rightarrow> Inr (d, g)
        | ip # _ \<Rightarrow>
            let ip_str = (case ip of None \<Rightarrow> [] | Some a \<Rightarrow> a) in
            bindR (choose_ip env e ip_str d) (\<lambda>(d, found).
            case found of
              None \<Rightarrow> Inr (d, g)
            | Some ip_str \<Rightarrow>
                bindR (sql e 4 (insertDynamic env ip_str mac_buf d)) (\<lambda>d.
                bindR (sql e 5 (selectMACwithIP env ip_str d)) (\<lambda>result2.
                if result2 = [] then Inr (d, g)
                else mapR (Pair d) (answer_dhcp e request \<lparr>s_addr = inet_addr ip_str\<rparr> d g))))))"

fun create_dhcp_loop ::
  "sql_env \<Rightarrow> (nat \<Rightarrow> dhcp_env) \<Rightarrow> nat \<Rightarrow> dhcp_request list \<Rightarrow> database \<times> gateway \<Rightarrow> (database \<times> gateway) result" where
  "create_dhcp_loop env es k [] s = Inr s"
| "create_dhcp_loop env es k (r # rs) s =
     bindR (create_dhcp_one env (es k) r s) (create_dhcp_loop env es (Suc k) rs)"

definition create_dhcp ::
  "sql_env \<Rightarrow> (nat \<Rightarrow> dhcp_env) \<Rightarrow> database \<times> gateway \<Rightarrow> (database \<times> gateway) result" where
  "create_dhcp env es s =
     (case s of (d, g) \<Rightarrow>
        bindR (eq_handle (\<lambda>r temp. Inr (temp @ [r])) (createDHCPRequestQueue d) []) (\<lambda>(q, temp).
        create_dhcp_loop env es 0 temp (d\<lparr>createDHCPRequestQueue := q\<rparr>, g)))"

section \<open>Loading the tables\<close>

text \<open>The loops over a result set. \<^verbatim>\<open>readMAC\<close> on a column reads up to its end; past it lies whatever
  follows in memory, a fault.\<close>

fun static_ip_rows :: "static_ip_row list \<Rightarrow> (in_addr \<times> ether_addr) list result" where
  "static_ip_rows [] = Inr []"
| "static_ip_rows (r # rs) =
     bindR (readMAC (sr_mac r)) (\<lambda>mac.
     mapR (Cons (\<lparr>s_addr = inet_addr (sr_ip r)\<rparr>, mac)) (static_ip_rows rs))"

text \<open>\<open>err\<close> says that the query throws, which nothing catches here.\<close>

definition getAllStaticIP :: "bool \<Rightarrow> database \<Rightarrow> (in_addr \<times> ether_addr) list result" where
  "getAllStaticIP err d = (if err then Inl UncaughtException else static_ip_rows (static_ip d))"

text \<open>\<^verbatim>\<open>SELECT * FROM user WHERE ip IS NOT NULL\<close>\<close>

definition selectAllUser :: "database \<Rightarrow> user_row list" where
  "selectAllUser d = filter (\<lambda>u. ur_ip u \<noteq> None) (user d)"

fun user_rows :: "u64 \<Rightarrow> user_row list \<Rightarrow> userInfo list result" where
  "user_rows tmo [] = Inr []"
| "user_rows tmo (u # us) =
     bindR (readMAC (ur_mac u)) (\<lambda>mac.
     mapR (Cons \<lparr>ui_ip = \<lparr>s_addr = inet_addr (case ur_ip u of None \<Rightarrow> [] | Some a \<Rightarrow> a)\<rparr>, user_mac = mac,
                  last_access = word_of_int (ur_accessed u), timeout = tmo\<rparr>)
       (user_rows tmo us))"

definition getAllUser :: "bool \<Rightarrow> u64 \<Rightarrow> database \<Rightarrow> userInfo list result" where
  "getAllUser err tmo d = (if err then Inl UncaughtException else user_rows tmo (selectAllUser d))"

section \<open>Construction, loop, termination\<close>

definition Database_new :: "in_addr \<Rightarrow> in_addr \<Rightarrow> in_addr list \<Rightarrow> u32 \<Rightarrow> static_ip_row list \<Rightarrow> user_row list \<Rightarrow> database" where
  "Database_new gw_ip netmask dns tmo statics users =
     \<lparr>createDHCPRequestQueue = eq_empty, updateTimeQueue = eq_empty, gatewayIP = gw_ip, subnetMask = netmask,
      dnsList = dns, db_timeout = tmo, static_ip = statics, user = users, db_termEvent = 0, db_gotExit = False\<rparr>"

definition db_terminate :: "database \<Rightarrow> database" where
  "db_terminate d = d\<lparr>db_termEvent := db_termEvent d + 1\<rparr>"

definition terminate_database :: "database \<Rightarrow> database" where
  "terminate_database d = d\<lparr>db_termEvent := 0, db_gotExit := True\<rparr>"

text \<open>What the event library runs next; a handler runs when its counter is not zero.\<close>

datatype db_event = D_term | D_dhcp "nat \<Rightarrow> dhcp_env" | D_update "nat \<Rightarrow> bool"

fun db_dispatch :: "sql_env \<Rightarrow> db_event \<Rightarrow> database \<times> gateway \<Rightarrow> (database \<times> gateway) result" where
  "db_dispatch env D_term (d, g) = Inr (if db_termEvent d > 0 then terminate_database d else d, g)"
| "db_dispatch env (D_dhcp es) (d, g) =
     (if pending (createDHCPRequestQueue d) > 0 then create_dhcp env es (d, g) else Inr (d, g))"
| "db_dispatch env (D_update errs) (d, g) =
     (if pending (updateTimeQueue d) > 0 then update_time_handler env errs (d, g) else Inr (d, g))"

fun db_serve :: "sql_env \<Rightarrow> db_event list \<Rightarrow> database \<times> gateway \<Rightarrow> (database \<times> gateway) result" where
  "db_serve env [] s = Inr s"
| "db_serve env (e # es) s =
     (if db_gotExit (fst s) then Inr s else bindR (db_dispatch env e s) (db_serve env es))"

end
