(* ===== verification/Getopt.thy ===== *)
theory Getopt
  imports Prelude
begin

text \<open>
  The command line: the option tables of \<^verbatim>\<open>main\<close> and the \<^verbatim>\<open>getopt_long\<close> of the C library that the loop of \<^verbatim>\<open>main\<close>
  calls until it returns \<open>-1\<close>. Arguments that are not options are passed over (the library moves them to the
  end), a double dash ends the options, a long name may be cut short when that is unambiguous, an argument
  follows its option in the same word or in the next. The loop of \<^verbatim>\<open>main\<close> ends the process at the first
  question mark, so what the library would return after it is left out.
\<close>

section \<open>Tables\<close>

text \<open>One return of \<^verbatim>\<open>getopt_long\<close>: the value stored in \<^verbatim>\<open>long_opt\<close>, the character returned (0 for a long
  option with a flag, a question mark for an unknown one) and \<^verbatim>\<open>optarg\<close>.\<close>

record getopt =
  go_long :: nat
  go_c :: char
  go_arg :: string

datatype arg_kind = no_argument | required_argument

text \<open>The fields \<^verbatim>\<open>flag\<close> and \<^verbatim>\<open>val\<close>: with no flag the value is returned, otherwise it is stored.\<close>

datatype opt_val = Ret char | Flag nat

record long_option =
  lo_name :: string
  lo_has_arg :: arg_kind
  lo_val :: opt_val

definition long_options :: "long_option list" where
  "long_options =
     [\<lparr>lo_name = ''inside'', lo_has_arg = required_argument, lo_val = Ret CHR ''i''\<rparr>,
      \<lparr>lo_name = ''outside'', lo_has_arg = required_argument, lo_val = Ret CHR ''o''\<rparr>,
      \<lparr>lo_name = ''db-user'', lo_has_arg = required_argument, lo_val = Ret CHR ''u''\<rparr>,
      \<lparr>lo_name = ''db-pass'', lo_has_arg = required_argument, lo_val = Ret CHR ''p''\<rparr>,
      \<lparr>lo_name = ''db-name'', lo_has_arg = required_argument, lo_val = Ret CHR ''n''\<rparr>,
      \<lparr>lo_name = ''timeout'', lo_has_arg = required_argument, lo_val = Ret CHR ''t''\<rparr>,
      \<lparr>lo_name = ''daemon'', lo_has_arg = no_argument, lo_val = Ret CHR ''d''\<rparr>,
      \<lparr>lo_name = ''gateway'', lo_has_arg = required_argument, lo_val = Flag 1\<rparr>,
      \<lparr>lo_name = ''subnet'', lo_has_arg = required_argument, lo_val = Flag 2\<rparr>,
      \<lparr>lo_name = ''dns'', lo_has_arg = required_argument, lo_val = Flag 3\<rparr>]"

definition optstring :: string where
  "optstring = ''u:p:i:o:n:t:d''"

section \<open>The library function\<close>

fun result_of :: "opt_val \<Rightarrow> string \<Rightarrow> getopt" where
  "result_of (Ret c) a = \<lparr>go_long = 0, go_c = c, go_arg = a\<rparr>"
| "result_of (Flag n) a = \<lparr>go_long = n, go_c = CHR 0x00, go_arg = a\<rparr>"

definition bad_option :: getopt where
  "bad_option = \<lparr>go_long = 0, go_c = CHR ''?'', go_arg = []\<rparr>"

text \<open>A letter of the option string, and whether a colon follows it. A double colon does not occur.\<close>

fun short_kind :: "string \<Rightarrow> char \<Rightarrow> arg_kind option" where
  "short_kind [] c = None"
| "short_kind (a # s) c =
     (if a = c then Some (if take 1 s = '':'' then required_argument else no_argument) else short_kind s c)"

text \<open>The exact name, or else the one option that begins so; several options that begin so are fine
  only when they mean the same.\<close>

definition find_long :: "string \<Rightarrow> long_option option" where
  "find_long name =
     (case filter (\<lambda>l. lo_name l = name) long_options of
        l # _ \<Rightarrow> Some l
      | [] \<Rightarrow>
          (case filter (\<lambda>l. take (length name) (lo_name l) = name) long_options of
             [] \<Rightarrow> None
           | l # ls \<Rightarrow>
               if list_all (\<lambda>l'. lo_has_arg l' = lo_has_arg l \<and> lo_val l' = lo_val l) ls then Some l else None))"

text \<open>Both give what is returned and the words that are left, \<open>None\<close> after a question mark.\<close>

definition take_arg :: "opt_val \<Rightarrow> string list \<Rightarrow> getopt list \<times> string list option" where
  "take_arg v args = (case args of [] \<Rightarrow> ([bad_option], None) | a # rest \<Rightarrow> ([result_of v a], Some rest))"

definition long_word :: "string \<Rightarrow> string list \<Rightarrow> getopt list \<times> string list option" where
  "long_word w args =
     (let name = takeWhile (\<lambda>c. c \<noteq> CHR ''='') w; val = drop (length name) w
      in case find_long name of
           None \<Rightarrow> ([bad_option], None)
         | Some l \<Rightarrow>
             (case lo_has_arg l of
                no_argument \<Rightarrow> if val = [] then ([result_of (lo_val l) []], Some args) else ([bad_option], None)
              | required_argument \<Rightarrow>
                  if val = [] then take_arg (lo_val l) args else ([result_of (lo_val l) (tl val)], Some args)))"

fun cluster :: "string \<Rightarrow> string list \<Rightarrow> getopt list \<times> string list option" where
  "cluster [] args = ([], Some args)"
| "cluster (c # cs) args =
     (case (if c = CHR '':'' \<or> c = CHR '';'' then None else short_kind optstring c) of
        None \<Rightarrow> ([bad_option], None)
      | Some no_argument \<Rightarrow> apfst (Cons (result_of (Ret c) [])) (cluster cs args)
      | Some required_argument \<Rightarrow>
          if cs = [] then take_arg (Ret c) args else ([result_of (Ret c) cs], Some args))"

definition option_word :: "string \<Rightarrow> string list \<Rightarrow> getopt list \<times> string list option" where
  "option_word w args = (if take 2 w = ''--'' then long_word (drop 2 w) args else cluster (drop 1 w) args)"

definition is_option :: "string \<Rightarrow> bool" where
  "is_option w \<longleftrightarrow> take 1 w = ''-'' \<and> length w > 1"

lemma take_arg_shorter: "take_arg v args = (gs, Some rest) \<Longrightarrow> length rest \<le> length args"
  by (auto simp: take_arg_def split: list.splits)

lemma long_word_shorter: "long_word w args = (gs, Some rest) \<Longrightarrow> length rest \<le> length args"
  by (auto simp: long_word_def Let_def take_arg_shorter split: option.splits arg_kind.splits if_splits)

lemma cluster_shorter: "cluster cs args = (gs, Some rest) \<Longrightarrow> length rest \<le> length args"
proof (induction cs arbitrary: gs)
  case (Cons c cs)
  then show ?case
    by (cases "cluster cs args") (auto simp: take_arg_shorter split: option.splits arg_kind.splits if_splits)
qed simp

lemma option_word_shorter: "option_word w args = (gs, Some rest) \<Longrightarrow> length rest \<le> length args"
  by (auto simp: option_word_def long_word_shorter cluster_shorter split: if_splits)

text \<open>All the calls of the loop on the words after the program's name.\<close>

function getopt_all :: "string list \<Rightarrow> getopt list" where
  "getopt_all [] = []"
| "getopt_all (w # args) =
     (if w = ''--'' then []
      else if \<not> is_option w then getopt_all args
      else case option_word w args of
             (gs, None) \<Rightarrow> gs
           | (gs, Some rest) \<Rightarrow> gs @ getopt_all rest)"
  by pat_completeness auto
termination
  by (relation "measure length") (auto simp: less_Suc_eq_le option_word_shorter [OF sym])

section \<open>Ways to write an option\<close>

text \<open>The letter or the name, the argument in the next word or in the same one.\<close>

datatype spelling = Letter_next | Letter_same | Name_next | Name_same

definition with_arg :: "long_option \<Rightarrow> string \<Rightarrow> string list" where
  "with_arg l a = (case lo_has_arg l of no_argument \<Rightarrow> [] | required_argument \<Rightarrow> [a])"

definition letter :: "long_option \<Rightarrow> string" where
  "letter l = (case lo_val l of Ret c \<Rightarrow> [c] | Flag n \<Rightarrow> [])"

fun spell :: "spelling \<Rightarrow> long_option \<Rightarrow> string \<Rightarrow> string list" where
  "spell Letter_next l a = (''-'' @ letter l) # with_arg l a"
| "spell Letter_same l a = [''-'' @ letter l @ a]"
| "spell Name_next l a = (''--'' @ lo_name l) # with_arg l a"
| "spell Name_same l a = [''--'' @ lo_name l @ ''='' @ a]"

text \<open>Only an option of the table, a letter only if it has one, an argument only if it takes one; an
  empty argument cannot stand in the word of a letter.\<close>

fun may_spell :: "spelling \<Rightarrow> long_option \<Rightarrow> string \<Rightarrow> bool" where
  "may_spell w l a \<longleftrightarrow> l \<in> set long_options \<and>
     (lo_has_arg l = no_argument \<longrightarrow> a = []) \<and>
     (w = Letter_next \<or> w = Letter_same \<longrightarrow> letter l \<noteq> []) \<and>
     (w = Letter_same \<longrightarrow> a \<noteq> []) \<and> (w = Name_same \<longrightarrow> lo_has_arg l = required_argument)"

declare getopt_all.simps [simp del]

lemma getopt_word:
  assumes "option_word w args = (gs, Some rest)" and "is_option w" and "w \<noteq> ''--''"
  shows "getopt_all (w # args) = gs @ getopt_all rest"
  using assms by (simp add: getopt_all.simps)

text \<open>The two tables are consistent.\<close>

lemma tables_consistent:
  "list_all (\<lambda>l. find_long (lo_name l) = Some l \<and> \<not> List.member (lo_name l) CHR ''='' \<and> lo_name l \<noteq> [] \<and>
     (case lo_val l of
        Ret c \<Rightarrow> short_kind optstring c = Some (lo_has_arg l) \<and> \<not> List.member '':;-'' c
      | Flag n \<Rightarrow> True)) long_options"
  by code_simp

lemma table_entry:
  assumes "l \<in> set long_options"
  shows "find_long (lo_name l) = Some l \<and> \<not> List.member (lo_name l) CHR ''='' \<and> lo_name l \<noteq> [] \<and>
     (case lo_val l of
        Ret c \<Rightarrow> short_kind optstring c = Some (lo_has_arg l) \<and> \<not> List.member '':;-'' c
      | Flag n \<Rightarrow> True)"
  using assms by (rule bspec [OF tables_consistent [unfolded list_all_iff]])

lemma long_options_exact:
  assumes "l \<in> set long_options"
  shows "find_long (lo_name l) = Some l" and "CHR ''='' \<notin> set (lo_name l)" and "lo_name l \<noteq> []"
  using table_entry [OF assms] by simp_all

lemma long_options_letter:
  assumes "l \<in> set long_options" and "lo_val l = Ret c"
  shows "short_kind optstring c = Some (lo_has_arg l)" and "c \<noteq> CHR '':''" and "c \<noteq> CHR '';''" and "c \<noteq> CHR ''-''"
  using table_entry [OF assms(1)] assms(2) by simp_all

lemma long_word_name:
  assumes "l \<in> set long_options"
  shows "long_word (lo_name l) args = (case lo_has_arg l of
      no_argument \<Rightarrow> ([result_of (lo_val l) []], Some args) | required_argument \<Rightarrow> take_arg (lo_val l) args)"
    and "lo_has_arg l = required_argument \<Longrightarrow>
      long_word (lo_name l @ CHR ''='' # a) args = ([result_of (lo_val l) a], Some args)"
proof -
  have all: "takeWhile (\<lambda>c. c \<noteq> CHR ''='') (lo_name l) = lo_name l"
    using long_options_exact(2) [OF assms] by (auto simp: takeWhile_eq_all_conv)
  show "long_word (lo_name l) args = (case lo_has_arg l of
      no_argument \<Rightarrow> ([result_of (lo_val l) []], Some args) | required_argument \<Rightarrow> take_arg (lo_val l) args)"
    by (simp add: long_word_def all long_options_exact(1) [OF assms] split: arg_kind.split)
  have "takeWhile (\<lambda>c. c \<noteq> CHR ''='') (lo_name l @ CHR ''='' # a) = lo_name l"
    using long_options_exact(2) [OF assms] by (auto simp: takeWhile_append)
  then show "lo_has_arg l = required_argument \<Longrightarrow>
      long_word (lo_name l @ CHR ''='' # a) args = ([result_of (lo_val l) a], Some args)"
    by (simp add: long_word_def long_options_exact(1) [OF assms])
qed

lemma getopt_name:
  assumes "may_spell w l a" and "w = Name_next \<or> w = Name_same"
  shows "getopt_all (spell w l a @ rest) = result_of (lo_val l) a # getopt_all rest"
  using assms(2)
proof
  assume w: "w = Name_next"
  have "getopt_all ((''--'' @ lo_name l) # (with_arg l a @ rest)) = [result_of (lo_val l) a] @ getopt_all rest"
    using assms(1) long_word_name(1) [of l "with_arg l a @ rest"] long_options_exact(3) [of l]
    by (intro getopt_word) (auto simp: option_word_def is_option_def with_arg_def take_arg_def split: arg_kind.splits)
  then show ?thesis by (simp add: w)
next
  assume w: "w = Name_same"
  have "getopt_all ((''--'' @ lo_name l @ ''='' @ a) # rest) = [result_of (lo_val l) a] @ getopt_all rest"
    using assms(1) w long_word_name(2) [of l a rest] by (intro getopt_word) (auto simp: option_word_def is_option_def)
  then show ?thesis by (simp add: w)
qed

lemma getopt_letter:
  assumes "may_spell w l a" and "w = Letter_next \<or> w = Letter_same"
  shows "getopt_all (spell w l a @ rest) = result_of (lo_val l) a # getopt_all rest"
proof -
  have l: "l \<in> set long_options" and "letter l \<noteq> []" using assms by auto
  then obtain c where v: "lo_val l = Ret c" by (auto simp: letter_def split: opt_val.splits)
  note c = long_options_letter [OF l v]
  show ?thesis using assms(2)
  proof
    assume w: "w = Letter_next"
    have "getopt_all ([CHR ''-'', c] # (with_arg l a @ rest)) = [result_of (lo_val l) a] @ getopt_all rest"
      using assms(1) c v
      by (intro getopt_word) (auto simp: option_word_def is_option_def with_arg_def take_arg_def split: arg_kind.splits)
    then show ?thesis by (simp add: w letter_def v)
  next
    assume w: "w = Letter_same"
    then have "lo_has_arg l = required_argument" using assms(1) by (cases "lo_has_arg l") auto
    then have "getopt_all ((CHR ''-'' # c # a) # rest) = [result_of (lo_val l) a] @ getopt_all rest"
      using assms(1) c v w by (intro getopt_word) (auto simp: option_word_def is_option_def)
    then show ?thesis by (simp add: w letter_def v)
  qed
qed

lemma getopt_spell:
  assumes "may_spell w l a"
  shows "getopt_all (spell w l a @ rest) = result_of (lo_val l) a # getopt_all rest"
  using assms getopt_name getopt_letter by (cases w) (simp_all del: spell.simps may_spell.simps)

text \<open>
  C15: The command line is read back as it was meant. Whatever options of the table are written, in whatever
  order, each by its letter or its name with the argument in the next word or in the same one, \<^verbatim>\<open>getopt_long\<close>
  returns exactly these options with exactly these arguments, whatever the arguments look like (a dash, an
  equals sign, a double dash included), and then goes on with the words that follow.
\<close>

theorem getopt_roundtrip:
  assumes "\<forall>(w, l, a) \<in> set os. may_spell w l a"
  shows "getopt_all (concat (map (\<lambda>(w, l, a). spell w l a) os) @ rest) =
    map (\<lambda>(w, l, a). result_of (lo_val l) a) os @ getopt_all rest"
  using assms by (induction os) (auto simp: getopt_spell simp del: spell.simps may_spell.simps getopt_all.simps)

theorem getopt_roundtrip_witness:
  "getopt_all [''-d'', ''--dns=8.8.8.8'', ''-i'', ''--'', ''-p-x='', ''--'', ''-i''] =
    [result_of (Ret CHR ''d'') [], result_of (Flag 3) ''8.8.8.8'', result_of (Ret CHR ''i'') ''--'',
     result_of (Ret CHR ''p'') ''-x='']"
  using getopt_roundtrip [of "[(Letter_next, long_options ! 6, []), (Name_same, long_options ! 9, ''8.8.8.8''),
      (Letter_next, long_options ! 0, ''--''), (Letter_same, long_options ! 3, ''-x='')]" "[''--'', ''-i'']"]
  by (simp add: long_options_def letter_def with_arg_def getopt_all.simps(2) [of "''--''"])

end
