(* ===== verification/Resources.thy ===== *)
theory Resources
  imports Device "HOL-Library.Multiset"
begin

text \<open>
  What the two objects acquire and release: mutexes, event descriptors, sockets, the event bases with their
  events, the database connection with its prepared statements. The constructors and destructors record
  their calls; \<open>ledger\<close> replays such a record and says what is still held, or that something was released
  that was not held.
\<close>

section \<open>Calls\<close>

text \<open>The mutexes of \<^verbatim>\<open>Gateway\<close> and of \<^verbatim>\<open>Database\<close>, and the statements of \<^verbatim>\<open>Database\<close>.\<close>

datatype mutex = M_addStaticIPLock | M_delStaticIPLock | M_addUserLock | M_delUserLock | M_sendPacketLock
  | M_createDHCPRequestLock | M_updateTimeLock

datatype stmt = S_selectMACwithIP | S_selectAllIP | S_selectAllUser | S_selectUserIPfromMAC | S_updateAccessTime
  | S_selectUnusedDynamicIP | S_selectUsingDynamicIP | S_deleteDynamic | S_insertDynamic

text \<open>A call with its answer where the answer is a descriptor.\<close>

datatype sys_call = Sys_dev dev_call | Mutex_init mutex | Mutex_destroy mutex | Sys_eventfd int | Sys_close int
  | Event_base_new | Event_new int
  | Sql_connect | Sql_setSchema | Sql_prepare stmt | Sql_delete stmt | Sql_conn_close | Sql_conn_delete

section \<open>The ledger\<close>

datatype res = R_fd int | R_mutex mutex | R_event_base | R_event int | R_session | R_connection | R_stmt stmt

definition descriptor :: "int \<Rightarrow> res list" where
  "descriptor fd = (if fd < 0 then [] else [R_fd fd])"

text \<open>\<^verbatim>\<open>connect\<close> gives an object with an open session; \<^verbatim>\<open>close\<close> ends the session, \<^verbatim>\<open>delete\<close> the object.\<close>

fun acquires :: "sys_call \<Rightarrow> res list" where
  "acquires (Sys_dev (Call_socket s)) = descriptor s"
| "acquires (Mutex_init m) = [R_mutex m]"
| "acquires (Sys_eventfd fd) = descriptor fd"
| "acquires Event_base_new = [R_event_base]"
| "acquires (Event_new fd) = [R_event fd]"
| "acquires Sql_connect = [R_connection, R_session]"
| "acquires (Sql_prepare s) = [R_stmt s]"
| "acquires _ = []"

fun releases :: "sys_call \<Rightarrow> res list" where
  "releases (Sys_dev (Call_close s)) = [R_fd s]"
| "releases (Mutex_destroy m) = [R_mutex m]"
| "releases (Sys_close fd) = [R_fd fd]"
| "releases (Sql_delete s) = [R_stmt s]"
| "releases Sql_conn_close = [R_session]"
| "releases Sql_conn_delete = [R_connection]"
| "releases _ = []"

fun give_back :: "res list \<Rightarrow> res list \<Rightarrow> res list option" where
  "give_back [] held = Some held"
| "give_back (r # rs) held = (if r \<in> set held then give_back rs (remove1 r held) else None)"

fun ledger :: "sys_call list \<Rightarrow> res list \<Rightarrow> res list option" where
  "ledger [] held = Some held"
| "ledger (c # cs) held = (case give_back (releases c) held of None \<Rightarrow> None | Some h \<Rightarrow> ledger cs (h @ acquires c))"

lemma ledger_append:
  "ledger (cs @ ds) held = (case ledger cs held of None \<Rightarrow> None | Some h \<Rightarrow> ledger ds h)"
  by (induction cs arbitrary: held) (auto split: option.splits)

text \<open>Calls that only acquire.\<close>

lemma ledger_acquires:
  assumes "\<forall>c\<in>set cs. releases c = []"
  shows "ledger cs held = Some (held @ concat (map acquires cs))"
  using assms by (induction cs arbitrary: held) simp_all

text \<open>Calls that only release succeed when everything they release is held, as often as they release it.\<close>

lemma give_back_mset:
  assumes "mset rs \<subseteq># mset held"
  shows "\<exists>h. give_back rs held = Some h \<and> mset h = mset held - mset rs"
  using assms
proof (induction rs arbitrary: held)
  case (Cons r rs)
  then have r: "r \<in> set held" by (auto dest: mset_subset_eqD)
  then have "mset rs \<subseteq># mset (remove1 r held)" using Cons.prems by (simp add: insert_subset_eq_iff)
  from Cons.IH [OF this] show ?case using r by auto
qed simp

lemma ledger_releases:
  assumes "\<forall>c\<in>set cs. acquires c = []" and "mset (concat (map releases cs)) \<subseteq># mset held"
  shows "\<exists>h. ledger cs held = Some h \<and> mset h = mset held - mset (concat (map releases cs))"
  using assms
proof (induction cs arbitrary: held)
  case (Cons c cs)
  then have le: "mset (releases c) + mset (concat (map releases cs)) \<subseteq># mset held" by simp
  from give_back_mset [of "releases c" held] obtain h where
    h: "give_back (releases c) held = Some h" "mset h = mset held - mset (releases c)"
    using subset_mset.order_trans [OF mset_subset_eq_add_left le] by blast
  have "mset (concat (map releases cs)) \<subseteq># mset h"
    using le h(2) by (auto simp: mset_subset_eq_exists_conv)
  from Cons.IH [OF _ this] Cons.prems(1) h show ?case by auto
qed simp

text \<open>A run that acquires and then releases leaves what was acquired and not released.\<close>

lemma ledger_balance:
  assumes "\<forall>c\<in>set cs. releases c = []" and "\<forall>c\<in>set ds. acquires c = []"
    and "mset (concat (map acquires cs)) = mset (concat (map releases ds)) + L"
  shows "\<exists>h. ledger (cs @ ds) [] = Some h \<and> mset h = L"
  using ledger_releases [OF assms(2), of "concat (map acquires cs)"] assms(3)
  by (simp add: ledger_append ledger_acquires [OF assms(1)])

end
