(* ===== verification/Main_Program.thy ===== *)
theory Main_Program
  imports Database Getopt Resources
begin

text \<open>
  The program \<^verbatim>\<open>main.cpp\<close> up to the start of the two threads: the options, becoming a daemon, waiting
  for the database server, building the two objects and loading the tables, and the signal
  handler. The answers of the system calls are arguments; the words of the command line go through \<open>Getopt\<close>.
\<close>

section \<open>Options\<close>

text \<open>The local variables of \<^verbatim>\<open>main\<close>. A character array holds what \<^verbatim>\<open>strncpy\<close> put there, with no terminator
  when it is full; \<open>None\<close> is an array never written.\<close>

record options =
  neccessary :: int
  opt_timeout :: int
  in_dev :: "string option"
  out_dev :: "string option"
  db_user :: "string option"
  db_pass :: "string option"
  db_name :: "string option"
  opt_gatewayIP :: in_addr
  opt_subnetMask :: in_addr
  opt_dnsList :: "in_addr list"
  daemonize :: bool

definition strncpy :: "string \<Rightarrow> nat \<Rightarrow> string option" where
  "strncpy src n = Some (take n src)"

definition options_start :: options where
  "options_start =
     \<lparr>neccessary = 7, opt_timeout = 10000, in_dev = None, out_dev = None, db_user = None, db_pass = None,
      db_name = strncpy ''gateway'' 255, opt_gatewayIP = \<lparr>s_addr = 0\<rparr>, opt_subnetMask = \<lparr>s_addr = 0\<rparr>,
      opt_dnsList = [], daemonize = False\<rparr>"

text \<open>\<^verbatim>\<open>atoi\<close>: spaces, a sign, digits; the value clipped to 64 bits and cut to 32.\<close>

definition atoi :: "string \<Rightarrow> int" where
  "atoi s =
     (let s = dropWhile is_space s;
          (sign, s) = (case s of
             [] \<Rightarrow> (1, [])
           | c # cs \<Rightarrow> if c = CHR ''-'' then (-1, cs) else if c = CHR ''+'' then (1, cs) else (1, c # cs));
          v = sign * int (fst (take_digits 10 0 s))
      in sint (word_of_int (max (- (2 ^ 63)) (min (2 ^ 63 - 1) v)) :: 32 word))"

definition decr :: "options \<Rightarrow> options" where
  "decr o1 = o1\<lparr>neccessary := neccessary o1 - 1\<rparr>"

text \<open>The body of the loop; the help text ends the process.\<close>

definition option_step :: "getopt \<Rightarrow> options \<Rightarrow> options result" where
  "option_step p o1 =
     (if go_long p \<noteq> 0 then
        if go_long p = 1 then Inr ((decr o1)\<lparr>opt_gatewayIP := \<lparr>s_addr = inet_addr (go_arg p)\<rparr>\<rparr>)
        else if go_long p = 2 then Inr ((decr o1)\<lparr>opt_subnetMask := \<lparr>s_addr = inet_addr (go_arg p)\<rparr>\<rparr>)
        else if go_long p = 3 then
          let o2 = (if length (opt_dnsList o1) = 0 then decr o1 else o1)
          in Inr (o2\<lparr>opt_dnsList := opt_dnsList o2 @ [\<lparr>s_addr = inet_addr (go_arg p)\<rparr>]\<rparr>)
        else Inr o1
      else if go_c p = CHR 0x00 then Inr o1
      else if go_c p = CHR ''i'' then Inr ((decr o1)\<lparr>in_dev := strncpy (go_arg p) IFNAMSIZ\<rparr>)
      else if go_c p = CHR ''o'' then Inr ((decr o1)\<lparr>out_dev := strncpy (go_arg p) IFNAMSIZ\<rparr>)
      else if go_c p = CHR ''u'' then Inr ((decr o1)\<lparr>db_user := strncpy (go_arg p) 255\<rparr>)
      else if go_c p = CHR ''p'' then Inr ((decr o1)\<lparr>db_pass := strncpy (go_arg p) 255\<rparr>)
      else if go_c p = CHR ''d'' then Inr (o1\<lparr>daemonize := True\<rparr>)
      else if go_c p = CHR ''t'' then
        let tmo = atoi (go_arg p) in Inr (o1\<lparr>opt_timeout := if tmo < 0 then 10000 else tmo\<rparr>)
      else if go_c p = CHR ''n'' then Inr (o1\<lparr>db_name := strncpy (go_arg p) 255\<rparr>)
      else Inl Exit)"

definition read_options :: "getopt list \<Rightarrow> options result" where
  "read_options ps =
     bindR (foldR option_step ps options_start) (\<lambda>o1. if neccessary o1 \<noteq> 0 then Inl Exit else Inr o1)"

section \<open>Daemon\<close>

text \<open>The parent ends, and so does a child that cannot start a session.\<close>

definition become_daemon :: "bool \<Rightarrow> int \<Rightarrow> int \<Rightarrow> unit result" where
  "become_daemon daemon pid sid =
     (if daemon then
        if pid < 0 then Inl Exit else if pid > 0 then Inl Exit else if sid < 0 then Inl Exit else Inr ()
      else Inr ())"

section \<open>Waiting for the server\<close>

definition MYSQL_RETRY_COUNT :: nat where "MYSQL_RETRY_COUNT = 30"
definition MYSQL_FINAL_WAIT :: nat where "MYSQL_FINAL_WAIT = 5"

text \<open>One look at the pid file: whether it opens, what \<^verbatim>\<open>fscanf\<close> returns and the number it reads.\<close>

record pid_file =
  pf_opens :: bool
  pf_count :: int
  pf_pid :: int

definition mysqld_found :: "pid_file \<Rightarrow> bool" where
  "mysqld_found f \<longleftrightarrow> pf_opens f \<and> pf_count f = 1 \<and> pf_pid f > 0"

text \<open>The loop; the result is the final \<^verbatim>\<open>fail\<close> and the seconds slept.\<close>

function wait_mysqld :: "(nat \<Rightarrow> pid_file) \<Rightarrow> nat \<Rightarrow> nat \<Rightarrow> nat \<times> nat" where
  "wait_mysqld file fail slept =
     (if fail < MYSQL_RETRY_COUNT then
        if mysqld_found (file fail) then (fail, slept) else wait_mysqld file (fail + 1) (slept + 1)
      else (fail, slept))"
  by pat_completeness auto
termination by (relation "measure (\<lambda>(file, fail, slept). MYSQL_RETRY_COUNT - fail)") auto

declare wait_mysqld.simps [simp del]

definition wait_server :: "(nat \<Rightarrow> pid_file) \<Rightarrow> nat result" where
  "wait_server file =
     (case wait_mysqld file 0 0 of (fail, slept) \<Rightarrow>
        if fail \<ge> MYSQL_RETRY_COUNT then Inl Exit else Inr (slept + MYSQL_FINAL_WAIT))"

section \<open>The two objects\<close>

text \<open>The constructors and destructors with the calls they make, those before a failure too. The answers of
  \<^verbatim>\<open>eventfd\<close> are given in order.\<close>

fun eventfds :: "int list \<Rightarrow> sys_call list \<times> unit result" where
  "eventfds [] = ([], Inr ())"
| "eventfds (fd # fds) = (if fd < 0 then ([Sys_eventfd fd], Inl Exit) else apfst (Cons (Sys_eventfd fd)) (eventfds fds))"

text \<open>What the outside answers. The SQL library may throw at the given call of the setup; the fields of the objects
  that hold event descriptors are \<open>se_db_fds\<close> and \<open>se_gw_fds\<close>, numbered in the order of the constructors.\<close>

record start_env =
  se_sql_err :: "nat option"
  se_db_fds :: "nat \<Rightarrow> int"
  se_db_evbase :: bool
  se_in :: dev_env
  se_out :: dev_env
  se_in_rx :: "recv_answer list"
  se_out_rx :: "recv_answer list"
  se_gw_fds :: "nat \<Rightarrow> int"
  se_gw_evbase :: bool
  se_static_err :: bool
  se_user_err :: bool
  se_blocks :: "ptr option list"

text \<open>A C string in an array of \<open>n\<close> characters: never written, or without a terminator.\<close>

definition c_string :: "nat \<Rightarrow> string option \<Rightarrow> string result" where
  "c_string n buf =
     (case buf of
        None \<Rightarrow> Inl Uninitialised
      | Some s \<Rightarrow> if length s \<ge> n then Inl OutOfBounds else Inr s)"

definition sql_setup :: "sys_call list" where
  "sql_setup = [Sql_connect, Sql_setSchema, Sql_prepare S_selectMACwithIP, Sql_prepare S_selectAllIP,
     Sql_prepare S_selectAllUser, Sql_prepare S_selectUserIPfromMAC, Sql_prepare S_updateAccessTime,
     Sql_prepare S_selectUnusedDynamicIP, Sql_prepare S_selectUsingDynamicIP, Sql_prepare S_deleteDynamic,
     Sql_prepare S_insertDynamic]"

definition Database_open ::
  "start_env \<Rightarrow> string \<Rightarrow> string \<Rightarrow> string \<Rightarrow> in_addr \<Rightarrow> in_addr \<Rightarrow> in_addr list \<Rightarrow> u32 \<Rightarrow>
   static_ip_row list \<Rightarrow> user_row list \<Rightarrow> sys_call list \<times> database result" where
  "Database_open se user_name passwd name gw_ip netmask dns tmo statics users =
     (case se_sql_err se of
        Some k \<Rightarrow> (take k sql_setup, Inl Exit)
      | None \<Rightarrow>
          (case eventfds (map (se_db_fds se) [0, 1, 2]) of
             (calls, Inl e) \<Rightarrow> (sql_setup @ calls, Inl e)
           | (calls, Inr _) \<Rightarrow>
               if \<not> se_db_evbase se then (sql_setup @ calls, Inl Exit)
               else (sql_setup @ calls @
                   [Event_base_new, Mutex_init M_createDHCPRequestLock, Mutex_init M_updateTimeLock] @
                   map (Event_new \<circ> se_db_fds se) [0, 1, 2],
                 Inr (Database_new gw_ip netmask dns tmo statics users))))"

definition Database_delete :: "(nat \<Rightarrow> int) \<Rightarrow> sys_call list" where
  "Database_delete fds =
     [Sql_delete S_selectMACwithIP, Sql_delete S_selectAllIP, Sql_delete S_selectAllUser,
      Sql_delete S_selectUserIPfromMAC, Sql_delete S_updateAccessTime,
      Sql_delete S_insertDynamic, Sql_delete S_deleteDynamic,
      Sql_delete S_selectUnusedDynamicIP, Sql_delete S_selectUsingDynamicIP,
      Sys_close (fds 1), Mutex_destroy M_createDHCPRequestLock, Sql_conn_close, Sql_conn_delete]"

definition gateway_locks :: "mutex list" where
  "gateway_locks = [M_addStaticIPLock, M_delStaticIPLock, M_addUserLock, M_delUserLock, M_sendPacketLock]"

text \<open>The devices read at most \<open>IFNAMSIZ\<close> characters of their names, so a full array does no harm.\<close>

definition Gateway_open :: "start_env \<Rightarrow> string option \<Rightarrow> string option \<Rightarrow> sys_call list \<times> gateway result" where
  "Gateway_open se in_name out_name =
     (case in_name of
        None \<Rightarrow> ([], Inl Uninitialised)
      | Some i \<Rightarrow>
          (case Device_new (se_in se) i (se_in_rx se) of
             (calls, Inl e) \<Rightarrow> (map Sys_dev calls, Inl e)
           | (calls, Inr dev1) \<Rightarrow>
               (case out_name of
                  None \<Rightarrow> (map Sys_dev calls, Inl Uninitialised)
                | Some o1 \<Rightarrow>
                    (case Device_new (se_out se) o1 (se_out_rx se) of
                       (calls2, Inl e) \<Rightarrow> (map Sys_dev (calls @ calls2), Inl e)
                     | (calls2, Inr dev2) \<Rightarrow>
                         (let before = map Sys_dev (calls @ calls2) @ map Mutex_init gateway_locks in
                          case eventfds (map (se_gw_fds se) [0, 1, 2, 3, 4, 5]) of
                            (calls3, Inl e) \<Rightarrow> (before @ calls3, Inl e)
                          | (calls3, Inr _) \<Rightarrow>
                              if \<not> se_gw_evbase se then (before @ calls3, Inl Exit)
                              else (before @ calls3 @ [Event_base_new] @ map (Event_new \<circ> se_gw_fds se) [0, 1, 2, 3, 4, 5],
                                Inr (Gateway_new dev1 dev2)))))))"

definition Gateway_delete :: "(nat \<Rightarrow> int) \<Rightarrow> gateway \<Rightarrow> sys_call list \<times> gateway" where
  "Gateway_delete fds g =
     (case Device_delete (inDev g) of (calls, dev1) \<Rightarrow>
        (case Device_delete (outDev g) of (calls2, dev2) \<Rightarrow>
           (map Mutex_destroy gateway_locks @ map Sys_dev (calls @ calls2) @ map (Sys_close \<circ> fds) [0, 1, 2, 3, 4, 5],
            g\<lparr>inDev := dev1, outDev := dev2\<rparr>)))"

text \<open>The end of \<^verbatim>\<open>main\<close>, after both threads have ended.\<close>

definition main_end :: "start_env \<Rightarrow> gateway \<Rightarrow> sys_call list" where
  "main_end se g = fst (Gateway_delete (se_gw_fds se) g) @ Database_delete (se_db_fds se)"

section \<open>Loading\<close>

fun add_statics :: "(in_addr \<times> ether_addr) list \<Rightarrow> gateway \<Rightarrow> gateway" where
  "add_statics [] g = g"
| "add_statics ((ip, mac) # xs) g = add_statics xs (addStaticIP ip mac g)"

fun add_users :: "ptr option list \<Rightarrow> userInfo list \<Rightarrow> gateway \<Rightarrow> gateway result" where
  "add_users bs [] g = Inr g"
| "add_users [] (i # is) g = bindR (addUserInfo None i g) (add_users [] is)"
| "add_users (b # bs) (i # is) g = bindR (addUserInfo b i g) (add_users bs is)"

definition load_tables :: "start_env \<Rightarrow> options \<Rightarrow> database \<Rightarrow> gateway \<Rightarrow> gateway result" where
  "load_tables se o1 d g =
     bindR (getAllStaticIP (se_static_err se) d) (\<lambda>allIP.
     let g = add_statics allIP g in
     bindR (getAllUser (se_user_err se) (word_of_int (opt_timeout o1)) d) (\<lambda>allUser.
     add_users (se_blocks se) allUser g))"

definition start :: "start_env \<Rightarrow> options \<Rightarrow> static_ip_row list \<Rightarrow> user_row list \<Rightarrow> (database \<times> gateway) result" where
  "start se o1 statics users =
     bindR (c_string 255 (db_user o1)) (\<lambda>user_name.
     bindR (c_string 255 (db_pass o1)) (\<lambda>passwd.
     bindR (c_string 255 (db_name o1)) (\<lambda>name.
     bindR (snd (Database_open se user_name passwd name (opt_gatewayIP o1) (opt_subnetMask o1) (opt_dnsList o1)
       (word_of_int (opt_timeout o1)) statics users)) (\<lambda>d.
     bindR (snd (Gateway_open se (in_dev o1) (out_dev o1))) (\<lambda>g.
     mapR (Pair d) (load_tables se o1 d g))))))"

definition main ::
  "string list \<Rightarrow> int \<Rightarrow> int \<Rightarrow> (nat \<Rightarrow> pid_file) \<Rightarrow> start_env \<Rightarrow> static_ip_row list \<Rightarrow> user_row list \<Rightarrow>
   (database \<times> gateway) result" where
  "main argv pid sid file se statics users =
     bindR (read_options (getopt_all argv)) (\<lambda>o1.
     bindR (become_daemon (daemonize o1) pid sid) (\<lambda>_.
     bindR (wait_server file) (\<lambda>_.
     start se o1 statics users)))"

section \<open>Signals\<close>

text \<open>The two global pointers are null until the objects exist, for the handler is installed before. At the end
  \<^verbatim>\<open>main\<close> deletes the objects and leaves the pointers as they are.\<close>

datatype 'a global = Unset | Live 'a | Deleted

definition exit_handle :: "database global \<Rightarrow> gateway global \<Rightarrow> (database \<times> gateway) result" where
  "exit_handle d g =
     (case g of
        Unset \<Rightarrow> Inl NullPointer
      | Deleted \<Rightarrow> Inl DanglingPointer
      | Live g \<Rightarrow>
          (case d of
             Unset \<Rightarrow> Inl NullPointer
           | Deleted \<Rightarrow> Inl DanglingPointer
           | Live d \<Rightarrow> Inr (db_terminate d, terminate g)))"

end
