(* ===== verification/Database_Props.thy ===== *)
theory Database_Props
  imports Database
begin

text \<open>
  The lemmas behind the properties of the database thread: the answer to a DHCP request byte for byte, the
  leases as a table with a contract, which address a request leads to, and what serving one request means
  for the tables and the gateway's channels.
\<close>

section \<open>The answer\<close>

definition gateway_mac :: ether_addr where
  "gateway_mac = EtherAddr 0x78 0x19 0xF7 0x58 0x30 0x01"

definition dhcp_answer :: "byte list \<Rightarrow> dhcp_request \<Rightarrow> in_addr \<Rightarrow> database \<Rightarrow> byte list" where
  "dhcp_answer gap r ip d =
     udp_frame gateway_mac (dr_mac r) (gatewayIP d) ip 67 68
       (dhcp_response gap (dr_transID r) ip (dr_mac r)
         (dhcp_options (dr_isDiscover r) (htons (dr_mtu r)) (gatewayIP d) (subnetMask d) (gatewayIP d)
           (dnsList d) DHCP_TIMEOUT))"

definition answer_packet :: "byte list \<Rightarrow> byte list \<Rightarrow> dhcp_request \<Rightarrow> in_addr \<Rightarrow> database \<Rightarrow> packet" where
  "answer_packet m1 m2 r ip d =
     \<lparr>writtenByte = 316 + 4 * int (length (dnsList d)), capacity = MY_PACKET_LEN,
      inMemory = overwrite 0 (dhcp_answer (segment 24 28 m2) r ip d) m1\<rparr>"

definition lease_info :: "dhcp_request \<Rightarrow> in_addr \<Rightarrow> database \<Rightarrow> userInfo" where
  "lease_info r ip d =
     \<lparr>ui_ip = ip, user_mac = dr_mac r, last_access = 0, timeout = ucast (db_timeout d)\<rparr>"

text \<open>A DISCOVER registers nobody, a REQUEST its sender.\<close>

definition admitted :: "dhcp_request \<Rightarrow> in_addr \<Rightarrow> database \<Rightarrow> userInfo list" where
  "admitted r ip d = (if dr_isDiscover r then [] else [lease_info r ip d])"

lemma gateway_mac_read: "readMAC gateway_mac_text = Inr gateway_mac"
  by (simp add: readMAC_by_digits gateway_mac_text_def gateway_mac_def hex_to_byte_def)

lemma length_dhcp_answer:
  "length gap = 4 \<Longrightarrow> length (dhcp_answer gap r ip d) = 316 + 4 * length (dnsList d)"
  by (simp add: dhcp_answer_def)

lemma answer_dhcp_builds:
  assumes m1: "de_packet e = Some m1" "length m1 = 1514" and m2: "de_dhcp e = Some m2" "length m2 = 1514"
    and dns: "length (dnsList d) \<le> 299"
  shows "answer_dhcp e r ip d g =
    bindR (if \<not> dr_isDiscover r then addUserInfo (de_user e) (lease_info r ip d) g else Inr g)
      (\<lambda>g. Inr (sendPacketRequest (answer_packet m1 m2 r ip d) g))"
proof -
  let ?p = "\<lparr>writtenByte = 1514, capacity = 1514, inMemory = m1\<rparr>"
  let ?q = "\<lparr>writtenByte = 1472, capacity = 1514, inMemory = m2\<rparr>"
  let ?opts = "dhcp_options (dr_isDiscover r) (htons (dr_mtu r)) (gatewayIP d) (subnetMask d) (gatewayIP d)
    (dnsList d) DHCP_TIMEOUT"
  let ?body = "dhcp_response (segment 24 28 m2) (dr_transID r) ip (dr_mac r) ?opts"
  let ?n = "274 + 4 * length (dnsList d)"
  have wf: "wf_packet ?p" "wf_packet ?q" using m1 m2 by (simp_all add: wf_packet_def)
  have body: "length ?body = ?n" using m2 by simp
  have resp: "writeResponse ?q 0 (dr_isDiscover r) (htons (dr_mtu r)) (dr_transID r) ip (dr_mac r)
      (gatewayIP d) (subnetMask d) (gatewayIP d) (dnsList d) DHCP_TIMEOUT =
      Inr (274 + 4 * int (length (dnsList d)), written ?q 0 ?body)"
    using writeResponse_layout [OF wf(2), of 0 "dnsList d"] dns by simp
  have room: "42 + int ?n \<le> writtenByte ?p" using dns by simp
  have mem: "?n \<le> length (overwrite 0 ?body m2)" using m2 dns body by simp
  have "take ?n (overwrite 0 ?body m2) = ?body" using body by (simp add: overwrite_0)
  then have frame: "makePacket ?p gateway_mac (dr_mac r) (gatewayIP d) ip 67 68 (overwrite 0 ?body m2) ?n =
      Inr (42 + int ?n, written ?p 0 (dhcp_answer (segment 24 28 m2) r ip d))"
    using makePacket_builds [OF wf(1) room mem] by (simp only: dhcp_answer_def)
  have nat: "nat (274 + 4 * int (length (dnsList d))) = ?n" by simp
  have pkt: "setLength (written ?p 0 (dhcp_answer (segment 24 28 m2) r ip d)) (42 + int ?n) =
      answer_packet m1 m2 r ip d"
    by (simp add: setLength_def written_def answer_packet_def sizes)
  show ?thesis
    unfolding answer_dhcp_def gateway_mac_read Packet_new_def m1(1) m2(1) Let_def
    using resp frame pkt nat
    by (simp add: setLength_def [of "\<lparr>writtenByte = 0, capacity = _, inMemory = _\<rparr>"] sizes getLength_def
        lease_info_def)
qed

lemma answer_packet_ok:
  assumes "length m1 = 1514" and "length m2 = 1514" and "length (dnsList d) \<le> 299"
  shows "sendable (answer_packet m1 m2 r ip d)"
    and "frame (answer_packet m1 m2 r ip d) = dhcp_answer (segment 24 28 m2) r ip d"
proof -
  have len: "length (dhcp_answer (segment 24 28 m2) r ip d) = 316 + 4 * length (dnsList d)"
    using assms(2) by (intro length_dhcp_answer) simp
  show "sendable (answer_packet m1 m2 r ip d)"
    using assms len by (simp add: sendable_def wf_packet_def answer_packet_def sizes)
  have "nat (316 + 4 * int (length (dnsList d))) = 316 + 4 * length (dnsList d)" by simp
  then show "frame (answer_packet m1 m2 r ip d) = dhcp_answer (segment 24 28 m2) r ip d"
    using len by (simp add: frame_def answer_packet_def overwrite_0)
qed

section \<open>Leases\<close>

text \<open>String equality of the tables is an equivalence.\<close>

definition collation :: "sql_env \<Rightarrow> bool" where
  "collation env \<longleftrightarrow> (\<forall>x. collate env x x) \<and> (\<forall>x y. collate env x y \<longrightarrow> collate env y x) \<and>
     (\<forall>x y z. collate env x y \<longrightarrow> collate env y z \<longrightarrow> collate env x z)"

lemma collationD:
  assumes "collation env"
  shows "collate env x x" and "collate env x y \<Longrightarrow> collate env y x"
    and "collate env x y \<Longrightarrow> collate env y z \<Longrightarrow> collate env x z"
  using assms unfolding collation_def by blast+

text \<open>No two users have the same hardware address, and no two hold the same IP address.\<close>

definition clash :: "sql_env \<Rightarrow> user_row \<Rightarrow> user_row \<Rightarrow> bool" where
  "clash env u v \<longleftrightarrow> (case ur_ip v of None \<Rightarrow> False | Some a \<Rightarrow> has_ip env a u)"

definition leases_ok :: "sql_env \<Rightarrow> database \<Rightarrow> bool" where
  "leases_ok env d \<longleftrightarrow> sorted_wrt (\<lambda>u v. \<not> collate env (ur_mac u) (ur_mac v)) (user d) \<and>
     sorted_wrt (\<lambda>u v. \<not> clash env u v) (user d)"

lemma sorted_wrt_map_mono:
  assumes "sorted_wrt P xs"
    and "\<And>x y. x \<in> set xs \<Longrightarrow> y \<in> set xs \<Longrightarrow> P x y \<Longrightarrow> Q (f x) (f y)"
  shows "sorted_wrt Q (map f xs)"
  using assms by (simp add: sorted_wrt_map) (metis (no_types, lifting) sorted_wrt_mono_rel)

lemma leases_ok_split:
  "leases_ok env d \<longleftrightarrow> sorted_wrt (\<lambda>u v. \<not> collate env (ur_mac u) (ur_mac v) \<and> \<not> clash env u v) (user d)"
  by (auto simp: leases_ok_def sorted_wrt_iff_nth_less)

lemma has_ip_clash:
  assumes "collation env"
  shows "clash env u v \<longleftrightarrow> (\<exists>a b. ur_ip u = Some a \<and> ur_ip v = Some b \<and> collate env a b)"
  by (auto simp: clash_def has_ip_def split: option.splits)

lemma insert_leases:
  assumes c: "collation env" and ok: "leases_ok env d" and free: "\<forall>u\<in>set (user d). \<not> has_ip env a u"
  shows "leases_ok env (insertDynamic env a mac d)"
  unfolding leases_ok_split insertDynamic_def
proof (simp, rule sorted_wrt_map_mono)
  show "sorted_wrt (\<lambda>u v. \<not> collate env (ur_mac u) (ur_mac v) \<and> \<not> clash env u v) (user d)"
    using ok by (simp add: leases_ok_split)
  fix u v
  let ?f = "\<lambda>u. if collate env (ur_mac u) mac then u\<lparr>ur_ip := Some a\<rparr> else u"
  assume in_table: "u \<in> set (user d)" "v \<in> set (user d)"
    and old: "\<not> collate env (ur_mac u) (ur_mac v) \<and> \<not> clash env u v"
  have "\<not> (collate env (ur_mac u) mac \<and> collate env (ur_mac v) mac)"
    using old collationD [OF c] by blast
  moreover have "\<not> has_ip env a u" "\<not> has_ip env a v" using free in_table by auto
  moreover have "ur_mac (?f w) = ur_mac w" for w by simp
  ultimately show "\<not> collate env (ur_mac (?f u)) (ur_mac (?f v)) \<and> \<not> clash env (?f u) (?f v)"
    using old by (auto simp: has_ip_clash [OF c] has_ip_def dest: collationD(2) [OF c])
qed

lemma delete_leases:
  assumes c: "collation env" and ok: "leases_ok env d"
  shows "leases_ok env (deleteDynamic env a d)" and "\<forall>u\<in>set (user (deleteDynamic env a d)). \<not> has_ip env a u"
proof -
  show "leases_ok env (deleteDynamic env a d)"
    unfolding leases_ok_split deleteDynamic_def
  proof (simp, rule sorted_wrt_map_mono)
    show "sorted_wrt (\<lambda>u v. \<not> collate env (ur_mac u) (ur_mac v) \<and> \<not> clash env u v) (user d)"
      using ok by (simp add: leases_ok_split)
  qed (auto simp: has_ip_clash [OF c] split: if_split_asm)
  show "\<forall>u\<in>set (user (deleteDynamic env a d)). \<not> has_ip env a u"
    by (auto simp: deleteDynamic_def has_ip_def)
qed

lemma insert_same:
  assumes c: "collation env" and ok: "leases_ok env d"
    and q: "selectUserIPfromMAC env mac d = Some a # rest"
  shows "insertDynamic env a mac d = d"
proof -
  obtain pre u post where us: "user d = pre @ u # post" "collate env (ur_mac u) mac" "ur_ip u = Some a"
    "\<forall>v\<in>set pre. \<not> collate env (ur_mac v) mac"
  proof -
    from q obtain u r where "filter (\<lambda>u. collate env (ur_mac u) mac) (user d) = u # r" "ur_ip u = Some a"
      by (auto simp: selectUserIPfromMAC_def)
    then show ?thesis using that by (auto simp: filter_eq_Cons_iff)
  qed
  have "\<not> collate env (ur_mac u) (ur_mac v)" if "v \<in> set post" for v
    using ok us(1) that by (simp add: leases_ok_def sorted_wrt_append)
  then have "\<not> collate env (ur_mac v) mac" if "v \<in> set post" for v
    using us(2) that collationD [OF c] by blast
  then have "map (\<lambda>u. if collate env (ur_mac u) mac then u\<lparr>ur_ip := Some a\<rparr> else u) (user d) = user d"
    using us by (auto intro!: map_idI)
  then show ?thesis by (simp add: insertDynamic_def)
qed

text \<open>What the choice of an address relies on: a table of leases to which a free address can be assigned,
  from which an address can be taken back, and where confirming a lease changes nothing.\<close>

locale lease_table =
  fixes invar :: "'d \<Rightarrow> bool"
    and free :: "'a \<Rightarrow> 'd \<Rightarrow> bool"
    and held :: "'m \<Rightarrow> 'a \<Rightarrow> 'd \<Rightarrow> bool"
    and assign :: "'a \<Rightarrow> 'm \<Rightarrow> 'd \<Rightarrow> 'd"
    and release :: "'a \<Rightarrow> 'd \<Rightarrow> 'd"
  assumes invar_assign: "invar d \<Longrightarrow> free a d \<Longrightarrow> invar (assign a m d)"
    and invar_release: "invar d \<Longrightarrow> invar (release a d)"
    and free_release: "invar d \<Longrightarrow> free a (release a d)"
    and assign_held: "invar d \<Longrightarrow> held m a d \<Longrightarrow> assign a m d = d"
begin

lemma invar_reassign: "invar d \<Longrightarrow> invar (assign a m (release a d))"
  by (intro invar_assign invar_release free_release)

lemma invar_grant: "invar d \<Longrightarrow> held m a d \<or> free a d \<Longrightarrow> invar (assign a m d)"
  using invar_assign assign_held by metis

end

definition holds :: "sql_env \<Rightarrow> string \<Rightarrow> string \<Rightarrow> database \<Rightarrow> bool" where
  "holds env mac a d \<longleftrightarrow> (case selectUserIPfromMAC env mac d of [] \<Rightarrow> False | ip # _ \<Rightarrow> ip = Some a)"

interpretation leases: lease_table "\<lambda>d. collation env \<and> leases_ok env d"
  "\<lambda>a d. \<forall>u\<in>set (user d). \<not> has_ip env a u" "holds env" "insertDynamic env" "deleteDynamic env" for env
proof unfold_locales
  fix d a m
  assume ok: "collation env \<and> leases_ok env d"
  show "\<forall>u\<in>set (user d). \<not> has_ip env a u \<Longrightarrow> collation env \<and> leases_ok env (insertDynamic env a m d)"
    using ok insert_leases by blast
  show "collation env \<and> leases_ok env (deleteDynamic env a d)" "\<forall>u\<in>set (user (deleteDynamic env a d)). \<not> has_ip env a u"
    using ok delete_leases by blast+
  show "holds env m a d \<Longrightarrow> insertDynamic env a m d = d"
    using ok insert_same by (auto simp: holds_def split: list.splits)
qed

text \<open>Which address is chosen for a client without one.\<close>

definition candidates :: "sql_env \<Rightarrow> int \<Rightarrow> database \<Rightarrow> (static_ip_row \<times> user_row) list" where
  "candidates env t d = filter (\<lambda>(r, u). \<not> sr_isStatic r \<and> has_ip env (sr_ip r) u \<and> ur_accessed u < t)
     (List.product (static_ip d) (user d))"

lemma selectUsing_first:
  assumes "selectUsingDynamicIP env t d = ip # rest"
  shows "\<exists>r u. (r, u) \<in> set (candidates env t d) \<and> ip = sr_ip r \<and>
    (\<forall>(r', u')\<in>set (candidates env t d). ur_accessed u \<le> ur_accessed u')"
proof -
  let ?key = "\<lambda>(r, u). ur_accessed u" and ?c = "candidates env t d"
  have "map (\<lambda>(r, u). sr_ip r) (sort_key ?key ?c) = ip # rest"
    using assms by (simp add: selectUsingDynamicIP_def candidates_def)
  then obtain x xs where x: "sort_key ?key ?c = x # xs" "ip = (case x of (r, u) \<Rightarrow> sr_ip r)" by auto
  have "set ?c = set (x # xs)" using x(1) by (metis set_sort)
  moreover have "sorted (map ?key (x # xs))" by (metis x(1) sorted_sort_key)
  moreover obtain r u where "x = (r, u)" by (cases x)
  ultimately show ?thesis using x(2) by (intro exI [of _ r] exI [of _ u]) auto
qed

lemma selectUnused_free:
  assumes c: "collation env" and "a \<in> set (selectUnusedDynamicIP env d)"
  shows "\<forall>u\<in>set (user d). \<not> has_ip env a u"
  using assms(2) by (auto simp: selectUnusedDynamicIP_def filter_empty_conv)

lemma choose_ip_leases:
  assumes c: "collation env" and ok: "leases_ok env d" and "choose_ip env e ip d = Inr (d1, Some a)"
    and q: "selectUserIPfromMAC env mac d = (if ip = [] then io else Some ip) # rest"
  shows "leases_ok env (insertDynamic env a mac d1)" and "static_ip d1 = static_ip d"
proof -
  consider "ip \<noteq> []" "d1 = d" "a = ip"
    | "ip = []" "d1 = d" "a \<in> set (selectUnusedDynamicIP env d)"
    | "ip = []" "d1 = deleteDynamic env a d"
    using assms(3) by (auto simp: choose_ip_def sql_def Let_def split: if_split_asm list.splits)
  then have "leases_ok env (insertDynamic env a mac d1) \<and> static_ip d1 = static_ip d"
  proof cases
    case 1
    then show ?thesis using leases.invar_grant [of env d mac ip] c ok q by (simp add: holds_def)
  next
    case 2
    then show ?thesis using leases.invar_grant [of env d mac a] c ok selectUnused_free [OF c] by blast
  next
    case 3
    then show ?thesis using leases.invar_reassign [of env d a mac] c ok by (simp add: deleteDynamic_def)
  qed
  then show "leases_ok env (insertDynamic env a mac d1)" "static_ip d1 = static_ip d" by auto
qed

section \<open>One DHCP request\<close>

definition mac_buf :: "ether_addr \<Rightarrow> string" where
  "mac_buf m = printMAC m [] 32"

lemma mac_buf_text: "mac_buf m = mac_text m"
  by (simp add: mac_buf_def printMAC_full)

text \<open>The allocator answers: blocks of the right size, the user's block not in use. The environment is
  well-behaved when also no statement fails.\<close>

definition memory_ok :: "dhcp_env \<Rightarrow> gateway \<Rightarrow> bool" where
  "memory_ok e g \<longleftrightarrow> (\<exists>m. de_packet e = Some m \<and> length m = 1514) \<and>
     (\<exists>m. de_dhcp e = Some m \<and> length m = 1514) \<and> (\<exists>p. de_user e = Some p \<and> um_find (heap g) p = None)"

definition dhcp_env_ok :: "dhcp_env \<Rightarrow> gateway \<Rightarrow> bool" where
  "dhcp_env_ok e g \<longleftrightarrow> (\<forall>k. \<not> de_err e k) \<and> memory_ok e g"

lemma sql_ok: "dhcp_env_ok e g \<Longrightarrow> sql e k x = Inr x"
  by (simp add: sql_def dhcp_env_ok_def)

text \<open>What queueing a packet, with a user or without, leaves alone in the gateway.\<close>

definition queues_answer :: "dhcp_env \<Rightarrow> userInfo list \<Rightarrow> packet \<Rightarrow> gateway \<Rightarrow> gateway \<Rightarrow> bool" where
  "queues_answer e us p g g' \<longleftrightarrow> gateway_ok g' \<and> registered g' = registered g \<and>
     requested g' = requested g @ us \<and>
     requests (sendPacketRequestQueue g') = requests (sendPacketRequestQueue g) @ [p] \<and>
     staticIPMap g' = staticIPMap g \<and> staticIPAddRequest g' = staticIPAddRequest g \<and>
     staticIPDelRequest g' = staticIPDelRequest g \<and> userDelRequest g' = userDelRequest g \<and>
     inDev g' = inDev g \<and> outDev g' = outDev g \<and> termEvent g' = termEvent g \<and> gotExit g' = gotExit g \<and>
     (\<forall>q. um_find (heap g) q = None \<longrightarrow> de_user e \<noteq> Some q \<longrightarrow> um_find (heap g') q = None)"

lemma answer_dhcp_ok:
  assumes e: "memory_ok e g" and ok: "gateway_ok g" and dns: "length (dnsList d) \<le> 299"
  shows "\<exists>g' gap p. answer_dhcp e r ip d g = Inr g' \<and>
    queues_answer e (admitted r ip d) p g g' \<and>
    length gap = 4 \<and> frame p = dhcp_answer gap r ip d \<and> sendable p"
proof -
  obtain m1 m2 pu where m: "de_packet e = Some m1" "length m1 = 1514" "de_dhcp e = Some m2" "length m2 = 1514"
    and pu: "de_user e = Some pu" "um_find (heap g) pu = None"
    using e by (auto simp: memory_ok_def)
  let ?p = "answer_packet m1 m2 r ip d"
  note builds = answer_dhcp_builds [OF m dns, of r ip g]
  note pkt = answer_packet_ok [OF m(2,4) dns, of r ip]
  have gap: "length (segment 24 28 m2) = 4" using m by simp
  have send: "queues_answer e [] ?p h (sendPacketRequest ?p h)" if "gateway_ok h" for h
    using channel_ops_ok(6) [OF that pkt(1)]
    by (simp add: queues_answer_def sendPacketRequest_def registered_def requested_def eq.contents_push)
  show ?thesis
  proof (cases "dr_isDiscover r")
    case True
    then show ?thesis
      using builds send [OF ok] pkt gap by (intro exI [of _ "sendPacketRequest ?p g"]
          exI [of _ "segment 24 28 m2"] exI [of _ ?p]) (simp add: admitted_def)
  next
    case False
    from addUserInfo_ok [OF ok pu(2), of "lease_info r ip d"] obtain h where
      h: "addUserInfo (Some pu) (lease_info r ip d) g = Inr h" "gateway_ok h" "registered h = registered g"
        "requested h = requested g @ [lease_info r ip d]" by blast
    have h': "h = g\<lparr>heap := um_insert pu (lease_info r ip d) (heap g),
        userAddRequest := eq_push pu (userAddRequest g)\<rparr>"
      using h(1) pu(2) by (auto simp: addUserInfo_def um_erase_absent)
    have "queues_answer e [lease_info r ip d] ?p g (sendPacketRequest ?p h)"
      using send [OF h(2)] h(3,4) pu by (auto simp: queues_answer_def h')
    then show ?thesis
      using builds pkt gap False h(1) pu by (intro exI [of _ "sendPacketRequest ?p h"]
          exI [of _ "segment 24 28 m2"] exI [of _ ?p]) (simp add: admitted_def)
  qed
qed

text \<open>The address a client's request leads to, with the tables after it: the user's own address, an
  unused dynamic one, or one whose lease has expired.\<close>

definition lease :: "sql_env \<Rightarrow> u64 \<Rightarrow> ether_addr \<Rightarrow> database \<Rightarrow> (string \<times> database) option" where
  "lease env now mac d =
     (case selectUserIPfromMAC env (mac_buf mac) d of
        [] \<Rightarrow> None
      | ip # _ \<Rightarrow>
          if ip \<noteq> None \<and> ip \<noteq> Some [] then Some (the ip, insertDynamic env (the ip) (mac_buf mac) d)
          else (case selectUnusedDynamicIP env d of
              a # _ \<Rightarrow> Some (a, insertDynamic env a (mac_buf mac) d)
            | [] \<Rightarrow>
                (case selectUsingDynamicIP env (uint (now - 7200000)) d of
                   a # _ \<Rightarrow> Some (a, insertDynamic env a (mac_buf mac) (deleteDynamic env a d))
                 | [] \<Rightarrow> None)))"

lemma timeout_ms: "1000 * ucast DHCP_TIMEOUT = (7200000 :: u64)"
  by (simp add: DHCP_TIMEOUT_def)

lemma create_dhcp_one_lease:
  assumes e: "dhcp_env_ok e g"
  shows "create_dhcp_one env e r (d, g) =
    (case lease env (de_now e) (dr_mac r) d of
       None \<Rightarrow> Inr (d, g)
     | Some (a, d1) \<Rightarrow>
         if selectMACwithIP env a d1 = [] then Inr (d1, g)
         else mapR (Pair d1) (answer_dhcp e r \<lparr>s_addr = inet_addr a\<rparr> d1 g))"
proof (cases "selectUserIPfromMAC env (mac_buf (dr_mac r)) d")
  case Nil
  then show ?thesis by (simp add: create_dhcp_one_def lease_def sql_ok [OF e] mac_buf_def Let_def)
next
  case (Cons ip rest)
  show ?thesis
  proof (cases "ip \<noteq> None \<and> ip \<noteq> Some []")
    case True
    then show ?thesis using Cons
      by (auto simp: create_dhcp_one_def lease_def sql_ok [OF e] choose_ip_def mac_buf_def Let_def)
  next
    case False
    then have "ip = None \<or> ip = Some []" by auto
    then show ?thesis using Cons
      by (elim disjE; cases "selectUnusedDynamicIP env d";
          cases "selectUsingDynamicIP env (uint (de_now e - 7200000)) d")
        (simp_all add: create_dhcp_one_def lease_def sql_ok [OF e] choose_ip_def mac_buf_def timeout_ms Let_def)
  qed
qed

lemma lease_config:
  assumes "lease env now mac d = Some (a, d1)"
  shows "gatewayIP d1 = gatewayIP d" and "subnetMask d1 = subnetMask d" and "dnsList d1 = dnsList d"
    and "db_timeout d1 = db_timeout d" and "static_ip d1 = static_ip d"
    and "updateTimeQueue d1 = updateTimeQueue d" and "createDHCPRequestQueue d1 = createDHCPRequestQueue d"
    and "db_termEvent d1 = db_termEvent d" and "db_gotExit d1 = db_gotExit d"
  using assms by (auto simp: lease_def insertDynamic_def deleteDynamic_def split: list.splits if_split_asm)

lemma lease_answer:
  assumes "lease env now mac d = Some (a, d1)"
  shows "dhcp_answer gap r ip d1 = dhcp_answer gap r ip d" and "admitted r ip d1 = admitted r ip d"
  using lease_config [OF assms] by (simp_all add: dhcp_answer_def lease_info_def admitted_def)

lemma insert_select:
  assumes c: "collation env" and q: "selectUserIPfromMAC env mac d \<noteq> []"
  shows "\<exists>rest. selectUserIPfromMAC env mac (insertDynamic env a mac d) = Some a # rest"
proof -
  let ?P = "\<lambda>u. collate env (ur_mac u) mac"
  have rows: "filter ?P (map (\<lambda>u. if ?P u then u\<lparr>ur_ip := Some a\<rparr> else u) us) =
      map (\<lambda>u. u\<lparr>ur_ip := Some a\<rparr>) (filter ?P us)" for us
    by (induction us) auto
  have "filter ?P (user d) \<noteq> []" using q by (simp add: selectUserIPfromMAC_def)
  then obtain u us where "filter ?P (user d) = u # us" by (cases "filter ?P (user d)") auto
  then have "selectUserIPfromMAC env mac (insertDynamic env a mac d) = Some a # map (\<lambda>_. Some a) us"
    unfolding selectUserIPfromMAC_def insertDynamic_def by (simp add: rows o_def)
  then show ?thesis by blast
qed

lemma delete_select: "selectUserIPfromMAC env mac (deleteDynamic env a d) = [] \<longleftrightarrow> selectUserIPfromMAC env mac d = []"
proof -
  have "filter (\<lambda>u. collate env (ur_mac u) mac) (map (\<lambda>u. if has_ip env a u then u\<lparr>ur_ip := None\<rparr> else u) us) = [] \<longleftrightarrow>
      filter (\<lambda>u. collate env (ur_mac u) mac) us = []" for us
    by (induction us) auto
  then show ?thesis by (simp add: selectUserIPfromMAC_def deleteDynamic_def)
qed

lemma lease_insert:
  assumes "lease env now mac d = Some (a, d1)"
  shows "\<exists>d0. d1 = insertDynamic env a (mac_buf mac) d0 \<and> selectUserIPfromMAC env (mac_buf mac) d0 \<noteq> []"
proof -
  let ?d = "deleteDynamic env a d"
  have "selectUserIPfromMAC env (mac_buf mac) d \<noteq> []" using assms by (auto simp: lease_def)
  then have "selectUserIPfromMAC env (mac_buf mac) d \<noteq> [] \<and> selectUserIPfromMAC env (mac_buf mac) ?d \<noteq> []"
    using delete_select [of env "mac_buf mac" a d] by simp
  with assms show ?thesis
    by (auto simp: lease_def split: list.splits if_split_asm intro: exI [of _ d] exI [of _ ?d])
qed

lemma lease_leases:
  assumes c: "collation env" and ok: "leases_ok env d" and l: "lease env now mac d = Some (a, d1)"
  shows "leases_ok env d1"
proof -
  have del: "leases_ok env (insertDynamic env x m (deleteDynamic env x d))" for x m
    using leases.invar_reassign [of env d] c ok by blast
  have new: "leases_ok env (insertDynamic env x m d)" if "x \<in> set (selectUnusedDynamicIP env d)" for x m
    using leases.invar_grant [of env d] selectUnused_free [OF c that] c ok by blast
  have old: "leases_ok env (insertDynamic env x m d)" if "selectUserIPfromMAC env m d = Some x # rest" for x m rest
    using leases.invar_grant [of env d m x] that c ok by (simp add: holds_def)
  show ?thesis
    using l del new old by (auto simp: lease_def split: list.splits if_split_asm)
qed

lemma create_dhcp_one_leases:
  assumes c: "collation env" and ok: "leases_ok env d" and "create_dhcp_one env e r (d, g) = Inr (d', g')"
  shows "leases_ok env d'"
proof (cases "selectUserIPfromMAC env (mac_buf (dr_mac r)) d")
  case Nil
  then show ?thesis using assms(2,3) by (auto simp: create_dhcp_one_def sql_def mac_buf_def Let_def split: if_split_asm)
next
  case (Cons ip rest)
  let ?s = "case ip of None \<Rightarrow> [] | Some a \<Rightarrow> a"
  from assms(3) Cons obtain d1 found where ch: "choose_ip env e ?s d = Inr (d1, found)"
    and rest: "case found of None \<Rightarrow> d' = d1 | Some a \<Rightarrow> d' = insertDynamic env a (mac_buf (dr_mac r)) d1"
    by (auto simp: create_dhcp_one_def sql_def mac_buf_def Let_def split: if_split_asm option.split_asm)
  show ?thesis
  proof (cases found)
    case None
    then have "d1 = d" using ch by (auto simp: choose_ip_def sql_def Let_def split: if_split_asm list.splits)
    then show ?thesis using rest None ok by simp
  next
    case (Some a)
    have "selectUserIPfromMAC env (mac_buf (dr_mac r)) d = (if ?s = [] then ip else Some ?s) # rest"
      using Cons by (auto split: option.splits)
    from choose_ip_leases(1) [OF c ok ch [unfolded Some] this] rest Some show ?thesis by simp
  qed
qed

lemma create_dhcp_loop_leases:
  assumes c: "collation env"
  shows "leases_ok env d \<Longrightarrow> create_dhcp_loop env es k rs (d, g) = Inr (d', g') \<Longrightarrow> leases_ok env d'"
proof (induction rs arbitrary: k d g)
  case (Cons r rs)
  from Cons.prems(2) obtain d1 g1 where
    1: "create_dhcp_one env (es k) r (d, g) = Inr (d1, g1)"
      "create_dhcp_loop env es (Suc k) rs (d1, g1) = Inr (d', g')" by auto
  from Cons.IH [OF create_dhcp_one_leases [OF c Cons.prems(1) 1(1)] 1(2)] show ?case .
qed auto

text \<open>What serving one request means.\<close>

definition lease_addr :: "string \<Rightarrow> in_addr" where
  "lease_addr a = \<lparr>s_addr = inet_addr a\<rparr>"

definition dhcp_served ::
  "sql_env \<Rightarrow> dhcp_env \<Rightarrow> dhcp_request \<Rightarrow> database \<times> gateway \<Rightarrow> database \<times> gateway \<Rightarrow> bool" where
  "dhcp_served env e r s s' \<longleftrightarrow>
     (case lease env (de_now e) (dr_mac r) (fst s) of
        None \<Rightarrow> s' = s
      | Some (a, d1) \<Rightarrow> fst s' = d1 \<and>
          (if selectMACwithIP env a d1 = [] then snd s' = snd s
           else (\<exists>p gap. length gap = 4 \<and> sendable p \<and> frame p = dhcp_answer gap r (lease_addr a) (fst s) \<and>
             queues_answer e (admitted r (lease_addr a) (fst s)) p
               (snd s) (snd s'))))"

lemma create_dhcp_one_served:
  assumes e: "dhcp_env_ok e g" and ok: "gateway_ok g" and dns: "length (dnsList d) \<le> 299"
  shows "\<exists>s'. create_dhcp_one env e r (d, g) = Inr s' \<and> dhcp_served env e r (d, g) s'"
proof (cases "lease env (de_now e) (dr_mac r) d")
  case None
  then show ?thesis by (simp add: create_dhcp_one_lease [OF e] dhcp_served_def)
next
  case (Some x)
  then obtain a d1 where l: "lease env (de_now e) (dr_mac r) d = Some (a, d1)" by (cases x) auto
  show ?thesis
  proof (cases "selectMACwithIP env a d1 = []")
    case True
    then show ?thesis by (simp add: create_dhcp_one_lease [OF e] dhcp_served_def l)
  next
    case False
    have "memory_ok e g" "length (dnsList d1) \<le> 299"
      using e dns lease_config(3) [OF l] by (simp_all add: dhcp_env_ok_def)
    from answer_dhcp_ok [OF this(1) ok this(2), of r "lease_addr a"] obtain g' gap p where
      g': "answer_dhcp e r (lease_addr a) d1 g = Inr g'" and
      q: "length gap = 4 \<and> sendable p \<and> frame p = dhcp_answer gap r (lease_addr a) d \<and>
        queues_answer e (admitted r (lease_addr a) d) p g g'"
      unfolding lease_answer [OF l] by blast
    have "create_dhcp_one env e r (d, g) = Inr (d1, g')"
      using False g' by (simp add: create_dhcp_one_lease [OF e] l lease_addr_def)
    moreover have "dhcp_served env e r (d, g) (d1, g')"
      using False q by (auto simp: dhcp_served_def l)
    ultimately show ?thesis by blast
  qed
qed

text \<open>A failing statement ends the process; otherwise the request is served as if none could fail.\<close>

lemma choose_ip_errors:
  "choose_ip env e ip d = Inl Exit \<or> choose_ip env e ip d = choose_ip env (e\<lparr>de_err := \<lambda>_. False\<rparr>) ip d"
  by (auto simp: choose_ip_def sql_def Let_def split: list.splits)

lemma create_dhcp_one_errors:
  "create_dhcp_one env e r s = Inl Exit \<or>
   create_dhcp_one env e r s = create_dhcp_one env (e\<lparr>de_err := \<lambda>_. False\<rparr>) r s"
proof -
  obtain d g where s: "s = (d, g)" by (cases s)
  let ?e = "e\<lparr>de_err := \<lambda>_. False\<rparr>"
  have answer: "answer_dhcp ?e = answer_dhcp e" by (intro ext) (simp add: answer_dhcp_def)
  show ?thesis
  proof (cases "selectUserIPfromMAC env (printMAC (dr_mac r) [] 32) d")
    case Nil
    then show ?thesis by (auto simp: create_dhcp_one_def s sql_def Let_def)
  next
    case (Cons ip rest)
    let ?s = "case ip of None \<Rightarrow> [] | Some a \<Rightarrow> a"
    show ?thesis
    proof (cases "choose_ip env e ?s d")
      case (Inl f)
      then have "choose_ip env ?e ?s d = Inl f \<or> f = Exit" using choose_ip_errors [of env e ?s d] by auto
      then show ?thesis using Inl Cons by (auto simp: create_dhcp_one_def s sql_def Let_def)
    next
      case (Inr x)
      then have "choose_ip env ?e ?s d = Inr x" using choose_ip_errors [of env e ?s d] by simp
      then show ?thesis using Inr Cons
        by (cases x) (auto simp: create_dhcp_one_def s sql_def Let_def answer split: option.splits)
    qed
  qed
qed

lemma create_dhcp_one_outcome:
  assumes mem: "memory_ok e g" and ok: "gateway_ok g" and dns: "length (dnsList d) \<le> 299"
  shows "(\<exists>k. de_err e k) \<and> create_dhcp_one env e r (d, g) = Inl Exit \<or>
    (\<exists>s'. create_dhcp_one env e r (d, g) = Inr s' \<and> dhcp_served env e r (d, g) s')"
proof (cases "\<exists>k. de_err e k")
  case False
  then have "dhcp_env_ok e g" using mem by (simp add: dhcp_env_ok_def)
  from create_dhcp_one_served [OF this ok dns] show ?thesis by blast
next
  case True
  let ?e = "e\<lparr>de_err := \<lambda>_. False\<rparr>"
  have "dhcp_env_ok ?e g" using mem by (simp add: dhcp_env_ok_def memory_ok_def)
  from create_dhcp_one_served [OF this ok dns, of env r]
  obtain s' where "create_dhcp_one env ?e r (d, g) = Inr s'" "dhcp_served env ?e r (d, g) s'" by blast
  moreover have queues: "queues_answer ?e = queues_answer e" by (intro ext) (simp add: queues_answer_def)
  have "dhcp_served env ?e r (d, g) s' = dhcp_served env e r (d, g) s'"
    unfolding dhcp_served_def queues by simp
  ultimately show ?thesis using True create_dhcp_one_errors [of env e r "(d, g)"] by metis
qed

lemma lease_again:
  assumes c: "collation env" and ok: "leases_ok env d" and l: "lease env now mac d = Some (a, d1)" and "a \<noteq> []"
  shows "lease env now' mac d1 = Some (a, d1)"
proof -
  from lease_insert [OF l] obtain d0 where
    d0: "d1 = insertDynamic env a (mac_buf mac) d0" "selectUserIPfromMAC env (mac_buf mac) d0 \<noteq> []" by blast
  then obtain rest where q: "selectUserIPfromMAC env (mac_buf mac) d1 = Some a # rest"
    using insert_select [OF c] by blast
  have "insertDynamic env a (mac_buf mac) d1 = d1"
    by (rule insert_same [OF c lease_leases [OF c ok l] q])
  then show ?thesis using q assms(4) by (simp add: lease_def)
qed

end
