(* ===== verification/Database_Policy.thy ===== *)
theory Database_Policy
  imports Database_Props
begin

text \<open>
  The properties of the database thread: how a DHCP request is answered, the policy that chooses
  the address, that no address is held twice, that an offer is kept, and what an update of the access time
  leads to.
\<close>

section \<open>The DHCP handler\<close>

text \<open>What a request leaves alone in the database object.\<close>

definition same_config :: "database \<Rightarrow> database \<Rightarrow> bool" where
  "same_config d d' \<longleftrightarrow> gatewayIP d' = gatewayIP d \<and> subnetMask d' = subnetMask d \<and> dnsList d' = dnsList d \<and>
     db_timeout d' = db_timeout d \<and> static_ip d' = static_ip d \<and>
     createDHCPRequestQueue d' = createDHCPRequestQueue d \<and> updateTimeQueue d' = updateTimeQueue d \<and>
     db_termEvent d' = db_termEvent d \<and> db_gotExit d' = db_gotExit d"

lemma served_keeps:
  assumes "dhcp_served env e r (d, g) (d', g')" and "gateway_ok g"
  shows "gateway_ok g' \<and> registered g' = registered g \<and> same_config d d' \<and>
    (\<forall>q. um_find (heap g) q = None \<longrightarrow> de_user e \<noteq> Some q \<longrightarrow> um_find (heap g') q = None)"
proof (cases "lease env (de_now e) (dr_mac r) d")
  case None
  then show ?thesis using assms by (simp add: dhcp_served_def same_config_def)
next
  case (Some x)
  then obtain a where l: "lease env (de_now e) (dr_mac r) d = Some (a, d')"
    using assms(1) by (cases x) (auto simp: dhcp_served_def)
  have "same_config d d'" using lease_config [OF l] by (simp add: same_config_def)
  then show ?thesis
    using assms by (auto simp: dhcp_served_def l queues_answer_def split: if_split_asm)
qed

lemma create_dhcp_one_leased:
  assumes "dhcp_env_ok e g" and "gateway_ok g" and "length (dnsList d) \<le> 299"
    and "lease env (de_now e) (dr_mac r) d = Some (a, d1)" and "selectMACwithIP env a d1 \<noteq> []"
  shows "\<exists>g1 p gap. length gap = 4 \<and> create_dhcp_one env e r (d, g) = Inr (d1, g1) \<and> dhcp_served env e r (d, g) (d1, g1) \<and>
    frame p = dhcp_answer gap r (lease_addr a) d \<and> queues_answer e (admitted r (lease_addr a) d) p g g1"
proof -
  from create_dhcp_one_served [OF assms(1-3), of env r] obtain s' where
    s': "create_dhcp_one env e r (d, g) = Inr s'" "dhcp_served env e r (d, g) s'" by blast
  then obtain p gap where "length gap = 4" "fst s' = d1" "frame p = dhcp_answer gap r (lease_addr a) d"
    "queues_answer e (admitted r (lease_addr a) d) p g (snd s')"
    using assms(4,5) by (auto simp: dhcp_served_def)
  with s' show ?thesis by (cases s') auto
qed

definition memories_ok :: "(nat \<Rightarrow> dhcp_env) \<Rightarrow> nat \<Rightarrow> gateway \<Rightarrow> bool" where
  "memories_ok es k g \<longleftrightarrow> (\<forall>i\<ge>k. memory_ok (es i) g) \<and> (\<forall>i j. de_user (es i) = de_user (es j) \<longrightarrow> i = j)"

lemma memories_step:
  assumes "memories_ok es k g" and "dhcp_served env (es k) r (d, g) (d', g')" and "gateway_ok g"
  shows "memories_ok es (Suc k) g'"
proof -
  note heap = served_keeps [OF assms(2,3)]
  have "memory_ok (es i) g'" if "Suc k \<le> i" for i
  proof -
    have "memory_ok (es i) g" "de_user (es i) \<noteq> de_user (es k)"
      using assms(1) that by (auto simp: memories_ok_def dest: Suc_le_lessD)
    then show ?thesis using heap by (auto simp: memory_ok_def)
  qed
  then show ?thesis using assms(1) by (simp add: memories_ok_def)
qed

lemma create_dhcp_loop_outcome:
  "memories_ok es k g \<Longrightarrow> gateway_ok g \<Longrightarrow> length (dnsList d) \<le> 299 \<Longrightarrow>
   (\<exists>i j. de_err (es i) j) \<and> create_dhcp_loop env es k rs (d, g) = Inl Exit \<or>
   (\<exists>d' g'. create_dhcp_loop env es k rs (d, g) = Inr (d', g') \<and> gateway_ok g' \<and>
      registered g' = registered g \<and> same_config d d')"
proof (induction rs arbitrary: k d g)
  case (Cons r rs)
  have "memory_ok (es k) g" using Cons.prems(1) by (simp add: memories_ok_def)
  from create_dhcp_one_outcome [OF this Cons.prems(2,3), of env r] show ?case
  proof (elim disjE exE conjE)
    fix s'
    assume one: "create_dhcp_one env (es k) r (d, g) = Inr s'" and served: "dhcp_served env (es k) r (d, g) s'"
    obtain d1 g1 where s': "s' = (d1, g1)" by (cases s')
    note kept = served_keeps [OF served [unfolded s'] Cons.prems(2)]
    have "memories_ok es (Suc k) g1" by (rule memories_step [OF Cons.prems(1) served [unfolded s'] Cons.prems(2)])
    from Cons.IH [OF this, of d1] kept Cons.prems(3) one show ?thesis
      by (auto simp: s' same_config_def)
  qed auto
qed (simp add: same_config_def)

lemma create_dhcp_unfold:
  assumes "channels_ok d"
  shows "create_dhcp env es (d, g) =
    create_dhcp_loop env es 0 (requests (createDHCPRequestQueue d)) (d\<lparr>createDHCPRequestQueue := eq_empty\<rparr>, g)"
  using assms by (simp add: create_dhcp_def channels_ok_def eq.handle_contents foldR_collect)

lemma leases_ok_queue [simp]: "leases_ok env (d\<lparr>createDHCPRequestQueue := q\<rparr>) = leases_ok env d"
  by (simp add: leases_ok_def)

section \<open>A small network\<close>

text \<open>Exact comparison, one pool address, a user who holds it since long ago and a new one.\<close>

definition exact :: sql_env where
  "exact = \<lparr>collate = (=), found_rows = True\<rparr>"

definition mac_old :: ether_addr where
  "mac_old = EtherAddr 0 0 0 0 0 1"

definition mac_new :: ether_addr where
  "mac_new = EtherAddr 0 0 0 0 0 2"

definition pool_row :: static_ip_row where
  "pool_row = \<lparr>sr_ip = ''10.0.0.9'', sr_mac = ''02:00:00:00:00:09'', sr_isStatic = False\<rparr>"

definition small_db :: database where
  "small_db = (Database_new \<lparr>s_addr = 0x0100000A\<rparr> \<lparr>s_addr = 0x00FFFFFF\<rparr> [\<lparr>s_addr = 0x08080808\<rparr>] 10000 [pool_row]
     [\<lparr>ur_user = ''old'', ur_ip = Some ''10.0.0.9'', ur_mac = mac_text mac_old, ur_accessed = 5\<rparr>,
      \<lparr>ur_user = ''new'', ur_ip = None, ur_mac = mac_text mac_new, ur_accessed = 0\<rparr>])"

definition calm :: "nat \<Rightarrow> dhcp_env" where
  "calm p = \<lparr>de_err = (\<lambda>_. False), de_now = 7200100, de_packet = Some (replicate 1514 0),
     de_dhcp = Some (replicate 1514 0), de_user = Some p\<rparr>"

definition ask :: "bool \<Rightarrow> dhcp_request" where
  "ask discover = \<lparr>dr_mac = mac_new, dr_transID = 7, dr_mtu = 1500, dr_isDiscover = discover\<rparr>"

definition quiet_gateway :: gateway where
  "quiet_gateway = Gateway_new sample_dev sample_dev"

lemma mac_text_inj: "mac_text a = mac_text b \<longleftrightarrow> a = b"
proof
  assume "mac_text a = mac_text b"
  then have "Inr a = (Inr b :: ether_addr result)"
    using readMAC_mac_text [of a "[]"] readMAC_mac_text [of b "[]"] by (simp only:)
  then show "a = b" by simp
qed simp

lemma two_macs: "mac_text mac_old \<noteq> mac_text mac_new" "mac_text mac_new \<noteq> mac_text mac_old"
  by (simp_all only: mac_text_inj) (simp_all add: mac_old_def mac_new_def)

lemma calm_simps [simp]: "de_now (calm p) = 7200100" "de_err (calm p) = (\<lambda>_. False)" "de_user (calm p) = Some p"
  by (simp_all add: calm_def)

lemma ask_simps [simp]: "dr_mac (ask b) = mac_new" "dr_isDiscover (ask b) = b"
  by (simp_all add: ask_def)

lemma exact_collation: "collation exact"
  by (simp add: collation_def exact_def)

lemma small_leases: "leases_ok exact small_db"
  by (simp add: leases_ok_def small_db_def Database_new_def exact_def clash_def two_macs)

lemma quiet_ok: "gateway_ok quiet_gateway" "heap quiet_gateway = um_empty"
  by (simp_all add: quiet_gateway_def Gateway_new_ok) (simp add: Gateway_new_def)

lemma calm_ok: "dhcp_env_ok (calm p) quiet_gateway"
  by (simp add: dhcp_env_ok_def memory_ok_def calm_def quiet_ok um.find_empty)

lemma small_lease:
  "\<exists>d1. lease exact 7200100 mac_new small_db = Some (''10.0.0.9'', d1) \<and> selectMACwithIP exact ''10.0.0.9'' d1 \<noteq> []"
  by (simp add: lease_def selectUserIPfromMAC_def selectUnusedDynamicIP_def selectUsingDynamicIP_def has_ip_def
      small_db_def Database_new_def exact_def pool_row_def mac_buf_text two_macs
      selectMACwithIP_def insertDynamic_def deleteDynamic_def)

lemma small_dns: "length (dnsList small_db) \<le> 299"
  by (simp add: small_db_def Database_new_def)

section \<open>Properties\<close>

text \<open>
  C6: A DHCP request of a known client is answered as specified. When no statement fails and memory
  is there, the handler's work on a request changes nothing if the client has no row or no address is to
  be had; otherwise it records the lease and, if the address belongs to the pool, queues
  exactly one packet, the specified OFFER or ACK frame for that address, and, for a REQUEST only, one
  request to register the client under it.
\<close>

theorem dhcp_request_answered:
  assumes "dhcp_env_ok e g" and "gateway_ok g" and "length (dnsList d) \<le> 299"
  shows "\<exists>s'. create_dhcp_one env e r (d, g) = Inr s' \<and> dhcp_served env e r (d, g) s'"
  using assms by (rule create_dhcp_one_served)

theorem dhcp_request_answered_witness:
  "\<exists>s' a p gap. create_dhcp_one exact (calm 1) (ask False) (small_db, quiet_gateway) = Inr s' \<and> length gap = 4 \<and>
    frame p = dhcp_answer gap (ask False) (lease_addr ''10.0.0.9'') small_db \<and>
    requested (snd s') = [lease_info (ask False) (lease_addr ''10.0.0.9'') small_db] \<and>
    requests (sendPacketRequestQueue (snd s')) = [p]"
proof -
  obtain d1 where l: "lease exact 7200100 mac_new small_db = Some (''10.0.0.9'', d1)"
    "selectMACwithIP exact ''10.0.0.9'' d1 \<noteq> []" using small_lease by blast
  have empty: "requested quiet_gateway = []" "requests (sendPacketRequestQueue quiet_gateway) = []"
    by (simp_all add: quiet_gateway_def Gateway_new_def requested_def blocks_def eq.contents_empty)
  from dhcp_request_answered [OF calm_ok quiet_ok(1) small_dns, of exact 1 "ask False"] l show ?thesis
    by (auto simp: dhcp_served_def empty queues_answer_def admitted_def)
qed

text \<open>
  C7: No address is held by two clients. If the tables say so before, and no two rows have the same
  hardware address, they say so after the handler has served every queued request, whatever
  addresses it hands out, reclaims or confirms; the handler empties its queue and returns, unless a
  statement throws, which ends the process; it registers nobody itself and keeps the
  invariants of the gateway's tables and of the channels.
\<close>

theorem no_address_leased_twice:
  assumes "collation env" and "leases_ok env d" and "channels_ok d" and "gateway_ok g"
    and "memories_ok es 0 g" and "length (dnsList d) \<le> 299"
  shows "(\<exists>i j. de_err (es i) j) \<and> create_dhcp env es (d, g) = Inl Exit \<or>
    (\<exists>d' g'. create_dhcp env es (d, g) = Inr (d', g') \<and> leases_ok env d' \<and> channels_ok d' \<and>
      requests (createDHCPRequestQueue d') = [] \<and> gateway_ok g' \<and> registered g' = registered g)"
proof -
  let ?d = "d\<lparr>createDHCPRequestQueue := eq_empty\<rparr>"
  have kept: "leases_ok env d'"
    if "create_dhcp_loop env es 0 (requests (createDHCPRequestQueue d)) (?d, g) = Inr (d', g')" for d' g'
    by (rule create_dhcp_loop_leases [OF assms(1) _ that]) (simp add: assms(2))
  have "channels_ok d'" "requests (createDHCPRequestQueue d') = []" if "same_config ?d d'" for d'
    using that assms(3) by (simp_all add: same_config_def channels_ok_def eq.invar_empty eq.contents_empty)
  with create_dhcp_loop_outcome [OF assms(5,4), of ?d env "requests (createDHCPRequestQueue d)"] kept assms(6)
  show ?thesis by (fastforce simp: create_dhcp_unfold [OF assms(3)])
qed

lemma calm_memories: "memories_ok calm 0 quiet_gateway"
  using calm_ok by (auto simp: memories_ok_def dhcp_env_ok_def)

definition asking_db :: database where
  "asking_db = createDHCP (ask False) (createDHCP (ask True) small_db)"

lemma asking_ok: "leases_ok exact asking_db" "channels_ok asking_db" "length (dnsList asking_db) \<le> 299"
proof -
  have "channels_ok small_db"
    by (simp add: channels_ok_def small_db_def Database_new_def eq.invar_empty)
  then show "channels_ok asking_db" by (simp add: asking_db_def createDHCP_channels)
qed (use small_leases small_dns in \<open>simp_all add: asking_db_def createDHCP_def\<close>)

theorem no_address_leased_twice_witness:
  "\<exists>d' g'. create_dhcp exact calm (asking_db, quiet_gateway) = Inr (d', g') \<and> leases_ok exact d' \<and>
    requests (createDHCPRequestQueue d') = []"
  using no_address_leased_twice [OF exact_collation asking_ok(1,2) quiet_ok(1) calm_memories asking_ok(3)]
  by auto

definition pool_held :: "sql_env \<Rightarrow> database \<Rightarrow> bool" where
  "pool_held env d \<longleftrightarrow> (\<forall>r\<in>set (static_ip d). sr_isStatic r \<or> (\<exists>u\<in>set (user d). has_ip env (sr_ip r) u))"

lemma selectUnused_Nil: "selectUnusedDynamicIP env d = [] \<longleftrightarrow> pool_held env d"
  by (auto simp: selectUnusedDynamicIP_def pool_held_def filter_empty_conv)

lemma selectUnused_Cons:
  assumes "selectUnusedDynamicIP env d = a # rest"
  shows "(\<exists>r\<in>set (static_ip d). \<not> sr_isStatic r \<and> a = sr_ip r) \<and> (\<forall>u\<in>set (user d). \<not> has_ip env a u)"
proof -
  have "a \<in> set (selectUnusedDynamicIP env d)" using assms by simp
  then show ?thesis by (auto simp: selectUnusedDynamicIP_def filter_empty_conv)
qed

lemma selectUsing_Nil: "selectUsingDynamicIP env t d = [] \<longleftrightarrow> candidates env t d = []"
proof -
  have "length (selectUsingDynamicIP env t d) = length (candidates env t d)"
    by (simp add: selectUsingDynamicIP_def candidates_def)
  then show ?thesis by (metis length_0_conv)
qed

text \<open>
  C18: Which address a client gets. One it already holds is kept. Otherwise the address is a pool
  address that no row holds; only when every pool address is held, it is one whose holder was
  last seen before the lease time, and of these the one seen longest ago, and it is taken from its
  holder; only when there is none of these either, no address is chosen and nothing changes.
\<close>

theorem choose_ip_policy:
  assumes "\<forall>k. \<not> de_err e k"
  shows "\<exists>d' found. choose_ip env e ip d = Inr (d', found) \<and>
    (ip \<noteq> [] \<longrightarrow> d' = d \<and> found = Some ip) \<and>
    (ip = [] \<longrightarrow>
      (case found of
         None \<Rightarrow> d' = d \<and> pool_held env d \<and> candidates env (uint (de_now e - 7200000)) d = []
       | Some a \<Rightarrow>
           (\<exists>r\<in>set (static_ip d). \<not> sr_isStatic r \<and> a = sr_ip r) \<and>
           (d' = d \<and> (\<forall>u\<in>set (user d). \<not> has_ip env a u) \<or>
            d' = deleteDynamic env a d \<and> pool_held env d \<and>
            (\<exists>r u. (r, u) \<in> set (candidates env (uint (de_now e - 7200000)) d) \<and> a = sr_ip r \<and>
              (\<forall>(r', u')\<in>set (candidates env (uint (de_now e - 7200000)) d). ur_accessed u \<le> ur_accessed u')))))"
proof -
  let ?t = "uint (de_now e - 7200000)"
  have "choose_ip env e [] d =
      (case selectUnusedDynamicIP env d of a # _ \<Rightarrow> Inr (d, Some a)
       | [] \<Rightarrow> (case selectUsingDynamicIP env ?t d of a # _ \<Rightarrow> Inr (deleteDynamic env a d, Some a)
               | [] \<Rightarrow> Inr (d, None)))"
    using assms by (simp add: choose_ip_def sql_def timeout_ms Let_def)
  moreover have "\<exists>r\<in>set (static_ip d). \<not> sr_isStatic r \<and> a = sr_ip r"
    if "selectUsingDynamicIP env ?t d = a # rest" for a rest
    using selectUsing_first [OF that] by (auto simp: candidates_def)
  ultimately show ?thesis
    using selectUnused_Nil [of env d] selectUnused_Cons [of env d] selectUsing_Nil [of env ?t d]
      selectUsing_first [of env ?t d]
    by (cases "ip = []"; cases "selectUnusedDynamicIP env d"; cases "selectUsingDynamicIP env ?t d")
      (simp_all add: choose_ip_def)
qed

theorem choose_ip_policy_witness:
  "\<exists>d'. choose_ip exact (calm 1) [] small_db = Inr (d', Some ''10.0.0.9'') \<and> pool_held exact small_db \<and>
    d' = deleteDynamic exact ''10.0.0.9'' small_db"
proof -
  let ?t = "uint (de_now (calm 1) - 7200000)"
  have held: "pool_held exact small_db"
    by (simp add: pool_held_def small_db_def Database_new_def pool_row_def has_ip_def exact_def)
  have dyn: "candidates exact ?t small_db \<noteq> []" "static_ip small_db = [pool_row]" "sr_ip pool_row = ''10.0.0.9''"
    by (simp_all add: candidates_def small_db_def Database_new_def pool_row_def has_ip_def exact_def)
  have busy: "\<exists>u\<in>set (user small_db). has_ip exact ''10.0.0.9'' u"
    by (simp add: small_db_def Database_new_def has_ip_def exact_def)
  have calm: "\<forall>k. \<not> de_err (calm 1) k" by simp
  from choose_ip_policy [OF calm, of exact "[]" small_db] obtain d' found where
    c: "choose_ip exact (calm 1) [] small_db = Inr (d', found)" and
    "case found of
       None \<Rightarrow> d' = small_db \<and> pool_held exact small_db \<and> candidates exact ?t small_db = []
     | Some a \<Rightarrow> (\<exists>r\<in>set (static_ip small_db). \<not> sr_isStatic r \<and> a = sr_ip r) \<and>
         (d' = small_db \<and> (\<forall>u\<in>set (user small_db). \<not> has_ip exact a u) \<or> d' = deleteDynamic exact a small_db)"
    by (auto split: option.splits)
  then have "found = Some ''10.0.0.9'' \<and> d' = deleteDynamic exact ''10.0.0.9'' small_db"
    using dyn busy by (cases found) auto
  with c held show ?thesis by auto
qed

text \<open>
  C17: An offer is kept. When a client's DISCOVER and its REQUEST are served one after the other, both
  answers carry the same address, the tables after the second are those after the first, and the client
  is requested to be registered under exactly the offered address, once.
\<close>

theorem offer_then_ack:
  assumes "collation env" and "leases_ok env d" and "gateway_ok g" and "length (dnsList d) \<le> 299"
    and "lease env (de_now (es 0)) (dr_mac r1) d = Some (a, d1)" and "a \<noteq> []" and "selectMACwithIP env a d1 \<noteq> []"
    and "dr_mac r2 = dr_mac r1" and "dr_isDiscover r1" and "\<not> dr_isDiscover r2"
    and "memories_ok es 0 g" and "\<forall>i j. \<not> de_err (es i) j"
  shows "\<exists>g2 p1 p2 gap1 gap2. create_dhcp_loop env es 0 [r1, r2] (d, g) = Inr (d1, g2) \<and>
    requests (sendPacketRequestQueue g2) = requests (sendPacketRequestQueue g) @ [p1, p2] \<and>
    frame p1 = dhcp_answer gap1 r1 (lease_addr a) d \<and> frame p2 = dhcp_answer gap2 r2 (lease_addr a) d \<and>
    requested g2 = requested g @ [lease_info r2 (lease_addr a) d]"
proof -
  have "dhcp_env_ok (es 0) g" using assms(11,12) by (simp add: dhcp_env_ok_def memories_ok_def)
  from create_dhcp_one_leased [OF this assms(3,4,5,7)] obtain g1 p1 gap1 where
    1: "create_dhcp_one env (es 0) r1 (d, g) = Inr (d1, g1)" "dhcp_served env (es 0) r1 (d, g) (d1, g1)"
      "frame p1 = dhcp_answer gap1 r1 (lease_addr a) d" "queues_answer (es 0) (admitted r1 (lease_addr a) d) p1 g g1"
    by blast
  have ok1: "gateway_ok g1" using 1(4) by (simp add: queues_answer_def)
  have dns: "length (dnsList d1) \<le> 299" using assms(4) lease_config(3) [OF assms(5)] by simp
  have "dhcp_env_ok (es 1) g1"
    using memories_step [OF assms(11) 1(2) assms(3)] assms(12) by (simp add: dhcp_env_ok_def memories_ok_def)
  moreover have "lease env (de_now (es 1)) (dr_mac r2) d1 = Some (a, d1)"
    unfolding assms(8) by (rule lease_again [OF assms(1,2,5,6)])
  ultimately obtain g2 p2 gap2 where
    2: "create_dhcp_one env (es 1) r2 (d1, g1) = Inr (d1, g2)"
      "frame p2 = dhcp_answer gap2 r2 (lease_addr a) d" "queues_answer (es 1) (admitted r2 (lease_addr a) d) p2 g1 g2"
    using create_dhcp_one_leased [OF _ ok1 dns _ assms(7), of "es 1" r2] unfolding lease_answer [OF assms(5)] by blast
  have "create_dhcp_loop env es 0 [r1, r2] (d, g) = Inr (d1, g2)" using 1(1) 2(1) by simp
  with 1(3,4) 2(2,3) assms(9,10) show ?thesis
    by (intro exI [of _ g2] exI [of _ p1] exI [of _ p2] exI [of _ gap1] exI [of _ gap2])
      (simp add: queues_answer_def admitted_def)
qed

theorem offer_then_ack_witness:
  "\<exists>d1 g2 p1 p2 gap1 gap2. create_dhcp_loop exact calm 0 [ask True, ask False] (small_db, quiet_gateway) = Inr (d1, g2) \<and>
    frame p1 = dhcp_answer gap1 (ask True) (lease_addr ''10.0.0.9'') small_db \<and>
    frame p2 = dhcp_answer gap2 (ask False) (lease_addr ''10.0.0.9'') small_db"
proof -
  obtain d1 where l: "lease exact (de_now (calm 0)) (dr_mac (ask True)) small_db = Some (''10.0.0.9'', d1)"
    "selectMACwithIP exact ''10.0.0.9'' d1 \<noteq> []" using small_lease by auto
  have "''10.0.0.9'' \<noteq> []" "dr_mac (ask False) = dr_mac (ask True)" "dr_isDiscover (ask True)"
    "\<not> dr_isDiscover (ask False)" "\<forall>i j. \<not> de_err (calm i) j" by simp_all
  from offer_then_ack [OF exact_collation small_leases quiet_ok(1) small_dns l(1) this(1) l(2) this(2-4)
      calm_memories this(5)] show ?thesis by blast
qed

section \<open>Access times\<close>

definition row_touched :: "sql_env \<Rightarrow> update_time \<Rightarrow> user_row \<Rightarrow> user_row" where
  "row_touched env r u =
     (if collate env (ur_mac u) (mac_buf (ut_mac r)) then u\<lparr>ur_accessed := uint (ut_UTC r)\<rparr> else u)"

definition touched_rows :: "sql_env \<Rightarrow> (nat \<Rightarrow> bool) \<Rightarrow> nat \<Rightarrow> update_time list \<Rightarrow> user_row \<Rightarrow> user_row" where
  "touched_rows env errs k rs = fold (\<lambda>(i, r). if errs i then id else row_touched env r) (enumerate k rs)"

text \<open>A statement counts when a row has the hardware address and, on a connection that counts changed rows only,
  does not hold the time already.\<close>

definition counts :: "sql_env \<Rightarrow> update_time \<Rightarrow> user_row list \<Rightarrow> bool" where
  "counts env r us \<longleftrightarrow>
     (\<exists>u\<in>set us. collate env (ur_mac u) (mac_buf (ut_mac r)) \<and> (found_rows env \<or> ur_accessed u \<noteq> uint (ut_UTC r)))"

text \<open>The addresses whose users are given up: the statement failed, or did not count on the rows as the requests
  before it left them.\<close>

definition given_up :: "sql_env \<Rightarrow> (nat \<Rightarrow> bool) \<Rightarrow> nat \<Rightarrow> update_time list \<Rightarrow> user_row list \<Rightarrow> in_addr list" where
  "given_up env errs k rs us =
     map (\<lambda>i. ut_ip (rs ! i)) (filter (\<lambda>i. errs (k + i) \<or>
       \<not> counts env (rs ! i) (map (touched_rows env errs k (take i rs)) us)) [0..<length rs])"

lemma row_touched_mac [simp]: "ur_mac (row_touched env r u) = ur_mac u" "ur_ip (row_touched env r u) = ur_ip u"
  by (simp_all add: row_touched_def)

lemma touched_rows_simps [simp]:
  "touched_rows env errs k [] = id"
  "touched_rows env errs k (r # rs) = touched_rows env errs (Suc k) rs \<circ> (if errs k then id else row_touched env r)"
  by (simp_all add: touched_rows_def)

lemma given_up_Nil [simp]: "given_up env errs k [] us = []"
  by (simp add: given_up_def)

lemma given_up_Cons [simp]:
  "given_up env errs k (r # rs) us =
     (if errs k \<or> \<not> counts env r us then [ut_ip r] else []) @
     given_up env errs (Suc k) rs (map (if errs k then id else row_touched env r) us)"
proof -
  have "[0..<length (r # rs)] = 0 # map Suc [0..<length rs]" by (simp add: upt_conv_Cons map_Suc_upt del: upt_Suc)
  then show ?thesis by (simp add: given_up_def filter_map comp_def del: upt_Suc)
qed

lemma update_time_one_rows:
  "update_time_one env err r (d, g) =
    (if err then d else d\<lparr>user := map (row_touched env r) (user d)\<rparr>,
     if err \<or> \<not> counts env r (user d) then delUserInfo (ut_ip r) g else g)"
  by (auto simp: update_time_one_def updateAccessTime_def counts_def row_touched_def [abs_def]
      mac_buf_def filter_empty_conv Let_def)

lemma update_time_loop_rows:
  "update_time_loop env errs k rs (d, g) =
    (d\<lparr>user := map (touched_rows env errs k rs) (user d)\<rparr>, fold delUserInfo (given_up env errs k rs (user d)) g)"
proof (induction rs arbitrary: k d g)
  case (Cons r rs)
  show ?case by (cases "errs k") (simp_all add: update_time_one_rows Cons.IH)
qed simp

text \<open>On a connection that counts matched rows, only the rows' hardware addresses matter.\<close>

lemma given_up_found_rows:
  assumes "found_rows env"
  shows "given_up env errs k rs us =
    map (\<lambda>(i, r). ut_ip r) (filter (\<lambda>(i, r). errs i \<or>
      \<not> (\<exists>u\<in>set us. collate env (ur_mac u) (mac_buf (ut_mac r)))) (enumerate k rs))"
proof (induction rs arbitrary: k us)
  case (Cons r rs)
  show ?case using assms by (cases "errs k") (simp_all add: Cons.IH counts_def)
qed simp

lemma fold_delUserInfo:
  "fold delUserInfo ips g = g\<lparr>userDelRequest := fold eq_push ips (userDelRequest g)\<rparr>"
  by (induction ips arbitrary: g) (simp_all add: delUserInfo_def)

text \<open>
  C26: Recording access times. The handler empties its queue and gives every row, for the updates with its hardware
  address in the order they were sent, the time of the last one whose statement did not fail. It asks the gateway to
  remove, in order, exactly the users of the requests whose statement failed or reported no row; nothing else
  of the gateway changes. Which rows a statement reports depends on the connection: one opened with
  \<^verbatim>\<open>CLIENT_FOUND_ROWS\<close> reports the rows with the hardware address, one opened without it, as this program does,
  only those that did not hold the time yet, so that a user whose row already holds the time of the request
  is removed as if it had no row.
\<close>

theorem update_time_effect:
  assumes "channels_ok d"
  shows "\<exists>g'. update_time_handler env errs (d, g) =
      Inr (d\<lparr>updateTimeQueue := eq_empty,
             user := map (touched_rows env errs 0 (requests (updateTimeQueue d))) (user d)\<rparr>, g') \<and>
    requests (userDelRequest g') =
      requests (userDelRequest g) @ given_up env errs 0 (requests (updateTimeQueue d)) (user d) \<and>
    g' = g\<lparr>userDelRequest := userDelRequest g'\<rparr>"
proof -
  let ?g = "fold delUserInfo (given_up env errs 0 (requests (updateTimeQueue d)) (user d)) g"
  have "update_time_handler env errs (d, g) =
      Inr (d\<lparr>updateTimeQueue := eq_empty,
             user := map (touched_rows env errs 0 (requests (updateTimeQueue d))) (user d)\<rparr>, ?g)"
    using assms by (simp add: update_time_handler_def channels_ok_def eq.handle_contents foldR_collect
        update_time_loop_rows)
  then show ?thesis by (intro exI [of _ ?g]) (simp add: fold_delUserInfo eq.contents_pushes)
qed

text \<open>Two requests for the same row with the same time, as two addresses of one client send them: the connection
  of the program drops the second user, and one with \<^verbatim>\<open>CLIENT_FOUND_ROWS\<close> keeps both.\<close>

theorem update_time_effect_witness:
  "let d = updateTime \<lparr>ut_mac = mac_old, ut_ip = lease_addr ''10.0.0.8'', ut_UTC = 77\<rparr>
         (updateTime \<lparr>ut_mac = mac_old, ut_ip = lease_addr ''10.0.0.9'', ut_UTC = 77\<rparr> small_db)
   in (\<exists>d' g'. update_time_handler (exact\<lparr>found_rows := False\<rparr>) (\<lambda>k. False) (d, quiet_gateway) = Inr (d', g') \<and>
        map ur_accessed (user d') = [77, 0] \<and> requests (userDelRequest g') = [lease_addr ''10.0.0.8'']) \<and>
      (\<exists>d' g'. update_time_handler exact (\<lambda>k. False) (d, quiet_gateway) = Inr (d', g') \<and>
        requests (userDelRequest g') = [])"
proof -
  let ?r1 = "\<lparr>ut_mac = mac_old, ut_ip = lease_addr ''10.0.0.9'', ut_UTC = 77\<rparr>"
  let ?r2 = "\<lparr>ut_mac = mac_old, ut_ip = lease_addr ''10.0.0.8'', ut_UTC = 77\<rparr>"
  let ?d = "updateTime ?r2 (updateTime ?r1 small_db)"
  have "channels_ok small_db"
    by (simp add: channels_ok_def small_db_def Database_new_def eq.invar_empty)
  then have ok: "channels_ok ?d" by (simp add: updateTime_channels)
  have rs: "requests (updateTimeQueue ?d) = [?r1, ?r2]" "user ?d = user small_db"
    by (simp_all add: updateTime_def eq.contents_push)
      (simp add: small_db_def Database_new_def eq.contents_empty)
  have del: "requests (userDelRequest quiet_gateway) = []"
    by (simp add: quiet_gateway_def Gateway_new_def eq.contents_empty)
  have rows: "user small_db = [\<lparr>ur_user = ''old'', ur_ip = Some ''10.0.0.9'', ur_mac = mac_text mac_old, ur_accessed = 5\<rparr>,
      \<lparr>ur_user = ''new'', ur_ip = None, ur_mac = mac_text mac_new, ur_accessed = 0\<rparr>]"
    by (simp add: small_db_def Database_new_def)
  note facts = del rows counts_def row_touched_def mac_buf_text exact_def two_macs
  from update_time_effect [OF ok, of "exact\<lparr>found_rows := False\<rparr>" "\<lambda>_. False" quiet_gateway]
    update_time_effect [OF ok, of exact "\<lambda>_. False" quiet_gateway] show ?thesis
    unfolding rs Let_def by (elim exE) (simp add: facts del: mac_text.simps)
qed

text \<open>The options of an answer start behind the three headers, the BOOTP fields and the magic number.\<close>

lemma dhcp_answer_options:
  assumes "length gap = 4" and "length (dnsList d) \<le> 63"
  shows "parse_options (drop 282 (dhcp_answer gap r ip d)) =
    Some [(53, [if dr_isDiscover r then 2 else 5]), (54, in_addr_bytes (gatewayIP d)), (51, bytes32 DHCP_TIMEOUT),
      (1, in_addr_bytes (subnetMask d)), (3, in_addr_bytes (gatewayIP d)), (26, bytes16 (htons (dr_mtu r))),
      (6, concat (map in_addr_bytes (dnsList d)))]"
proof -
  have "drop 282 (dhcp_answer gap r ip d) =
      dhcp_options (dr_isDiscover r) (htons (dr_mtu r)) (gatewayIP d) (subnetMask d) (gatewayIP d) (dnsList d) DHCP_TIMEOUT"
    using assms(1) by (simp add: dhcp_answer_def udp_frame_def dhcp_response_def)
  then show ?thesis using parse_dhcp_options [OF assms(2)] by simp
qed

text \<open>
  C39: The lease time on the wire is wrong. Whatever is answered to a client, the lease time option of the queued
  frame holds the bytes 20 1C 00 00 (hexadecimal), which a client reads in network byte order as 538705920
  seconds, about seventeen years; the constant is 7200, and the database hands the address to another client
  once it has not been used for that many seconds.
\<close>

theorem lease_time_on_wire:
  assumes "dhcp_env_ok e g" and "gateway_ok g" and "length (dnsList d) \<le> 63"
    and "lease env (de_now e) (dr_mac r) d = Some (a, d1)" and "selectMACwithIP env a d1 \<noteq> []"
  shows "\<exists>g1 p opts v. create_dhcp_one env e r (d, g) = Inr (d1, g1) \<and>
    requests (sendPacketRequestQueue g1) = requests (sendPacketRequestQueue g) @ [p] \<and>
    parse_options (drop 282 (frame p)) = Some opts \<and> map_of opts 51 = Some v \<and>
    v = [0x20, 0x1C, 0, 0] \<and> le32 (rev v) = 538705920 \<and> DHCP_TIMEOUT = 7200"
proof -
  have dns: "length (dnsList d) \<le> 299" using assms(3) by simp
  from create_dhcp_one_leased [OF assms(1,2) dns assms(4,5)] obtain g1 p gap where
    g1: "create_dhcp_one env e r (d, g) = Inr (d1, g1)" "length gap = 4"
      "frame p = dhcp_answer gap r (lease_addr a) d" "queues_answer e (admitted r (lease_addr a) d) p g g1" by blast
  have "bytes32 DHCP_TIMEOUT = [0x20, 0x1C, 0, 0]" by (simp add: DHCP_TIMEOUT_def bytes32_def)
  moreover have "requests (sendPacketRequestQueue g1) = requests (sendPacketRequestQueue g) @ [p]"
    using g1(4) by (auto simp: queues_answer_def)
  moreover have "le32 (rev [0x20, 0x1C, 0, 0]) = 538705920" by (simp add: push_bit_eq_mult)
  ultimately show ?thesis
    using g1(1) dhcp_answer_options [OF g1(2) assms(3), of r "lease_addr a"]
    by (intro exI [of _ g1] exI [of _ p]) (simp add: g1(3) DHCP_TIMEOUT_def)
qed

theorem lease_time_on_wire_witness:
  "\<exists>d1 g1 p opts. create_dhcp_one exact (calm 1) (ask True) (small_db, quiet_gateway) = Inr (d1, g1) \<and>
    requests (sendPacketRequestQueue g1) = [p] \<and> parse_options (drop 282 (frame p)) = Some opts \<and>
    map_of opts 51 = Some [0x20, 0x1C, 0, 0]"
proof -
  have dns: "length (dnsList small_db) \<le> 63" by (simp add: small_db_def Database_new_def)
  have empty: "requests (sendPacketRequestQueue quiet_gateway) = []"
    by (simp add: quiet_gateway_def Gateway_new_def eq.contents_empty)
  obtain d1 where l: "lease exact (de_now (calm 1)) (dr_mac (ask True)) small_db = Some (''10.0.0.9'', d1)"
    "selectMACwithIP exact ''10.0.0.9'' d1 \<noteq> []" using small_lease by auto
  from lease_time_on_wire [OF calm_ok quiet_ok(1) dns l] show ?thesis by (auto simp: empty)
qed

end
