(* ===== verification/Gateway_Serve.thy ===== *)
theory Gateway_Serve
  imports Gateway
begin

text \<open>
  The forwarding loop \<^verbatim>\<open>Gateway::serve\<close>: what happens to one frame from the inside and to one frame
  from the outside, the two bursts, the dispatch of the pending events and the loop around them.
  The clock, the blocks \<^verbatim>\<open>malloc\<close> returns and the order in which the event library runs the ready
  handlers are arguments.
\<close>

section \<open>State of the thread\<close>

record server =
  gw :: gateway
  db :: database
  inPacket :: packet
  outPacket :: packet

definition IO_BURST :: nat where [sizes]: "IO_BURST = 32"

definition ETHER_BROADCAST :: ether_addr where
  "ETHER_BROADCAST = EtherAddr 0xFF 0xFF 0xFF 0xFF 0xFF 0xFF"

definition IPv4_BROADCAST :: in_addr where
  "IPv4_BROADCAST = \<lparr>s_addr = 0xFFFFFFFF\<rparr>"

definition IPv4_NONE :: in_addr where
  "IPv4_NONE = \<lparr>s_addr = 0\<rparr>"

text \<open>\<^verbatim>\<open>iter->second\<close>: dereferencing the end iterator is a fault.\<close>

definition iter_second :: "'v option \<Rightarrow> 'v result" where
  "iter_second iter = (case iter of None \<Rightarrow> Inl EndIterator | Some v \<Rightarrow> Inr v)"

section \<open>Frames from the inside\<close>

definition arp_wanted :: "arphdr \<Rightarrow> bool" where
  "arp_wanted arp_header \<longleftrightarrow>
     ar_hrd arp_header = ARPHRD_ETHER \<and> ar_pro arp_header = ETHERTYPE_IP \<and>
     (ar_op arp_header = ARPOP_REQUEST \<or> ar_op arp_header = ARPOP_REPLY) \<and>
     uint (ar_pln arp_header) = sizeof_in_addr \<and> uint (ar_hln arp_header) = sizeof_ether_addr"

text \<open>\<open>None\<close> is the \<^verbatim>\<open>continue\<close> that drops the frame; otherwise the rewritten packet and the user it is
  accounted to.\<close>

definition in_arp :: "gateway \<Rightarrow> packet \<Rightarrow> (packet \<times> ptr option) option result" where
  "in_arp g packet =
     (let ethernet = Ethernet_new; arp = ARP_at (Ethernet_getNextOffset ethernet) in
      bindR (ARP_getHeader packet arp) (\<lambda>arp_header.
      if \<not> arp_wanted arp_header then Inr None
      else
      bindR (ARP_getDestinationIP packet arp) (\<lambda>destIP.
      bindR (ARP_getSourceIP packet arp) (\<lambda>srcIP.
      let destIter = um_find (staticIPMap g) (s_addr destIP);
          srcIter = um_find (staticIPMap g) (s_addr srcIP);
          userIter = um_find (userMap g) (s_addr srcIP) in
      if destIter \<noteq> None then Inr None
      else (case userIter of
          Some info \<Rightarrow>
            bindR (Ethernet_getSource packet ethernet) (\<lambda>source_mac.
            bindR (deref (heap g) info) (\<lambda>i.
            if user_mac i \<noteq> source_mac then Inr None
            else
            bindR (iter_second srcIter) (\<lambda>mac.
            bindR (ARP_setSourceMAC packet arp mac) (\<lambda>packet.
            bindR (Ethernet_setSource packet ethernet mac) (\<lambda>packet.
            Inr (Some (packet, Some info)))))))
        | None \<Rightarrow>
            if srcIter \<noteq> None then Inr None else Inr (Some (packet, None)))))))"

text \<open>A client's DHCP message, taken off the wire; \<open>dhcp\<close> is the offset of the DHCP header.\<close>

definition in_dhcp :: "database \<Rightarrow> packet \<Rightarrow> int \<Rightarrow> database result" where
  "in_dhcp d packet dhcp =
     bindR (DHCP_getOpcode packet dhcp) (\<lambda>opcode.
     if opcode = 1 then
       bindR (DHCP_getMessageType packet dhcp) (\<lambda>messageType.
       if messageType = 1 \<or> messageType = 3 then
         bindR (DHCP_getClientMAC packet dhcp) (\<lambda>mac.
         bindR (DHCP_getTransactionID packet dhcp) (\<lambda>transID.
         let request = \<lparr>dr_mac = mac, dr_transID = transID, dr_mtu = word_of_int MY_MTU,
               dr_isDiscover = (messageType = 1)\<rparr> in
         bindR (Ethernet_getSource packet Ethernet_new) (\<lambda>source_mac.
         if dr_mac request \<noteq> source_mac then Inr d
         else Inr (createDHCP request d))))
       else Inr d)
     else Inr d)"

definition in_ip ::
  "gateway \<Rightarrow> database \<Rightarrow> packet \<Rightarrow> int \<Rightarrow> (database \<times> (packet \<times> ptr option) option) result" where
  "in_ip g d packet readLen =
     (let ethernet = Ethernet_new; ip = Ethernet_getNextOffset ethernet in
      bindR (IP_getNextOffset packet ip) (\<lambda>next.
      if readLen < Ethernet_getNextOffset ethernet + next then Inr (d, None)
      else
      bindR (IP_getDestination packet ip) (\<lambda>destIP.
      bindR (IP_getSource packet ip) (\<lambda>srcIP.
      bindR (IP_getProtocol packet ip) (\<lambda>proto.
      bindR (if proto = IPPROTO_UDP then
               let udp = next in
               bindR (UDP_getSource packet udp) (\<lambda>sport.
               bindR (UDP_getDestination packet udp) (\<lambda>dport.
               if sport = 68 \<and> dport = 67 then
                 mapR Some (in_dhcp d packet (DHCP_at (UDP_getNextOffset udp)))
               else Inr None))
             else Inr None)
        (\<lambda>intercepted. case intercepted of
           Some d \<Rightarrow> Inr (d, None)
         | None \<Rightarrow>
      let destIter = um_find (staticIPMap g) (s_addr destIP);
          srcIter = um_find (staticIPMap g) (s_addr srcIP);
          userIter = um_find (userMap g) (s_addr srcIP) in
      if destIter \<noteq> None then Inr (d, None)
      else (case userIter of
          Some info \<Rightarrow>
            bindR (Ethernet_getSource packet ethernet) (\<lambda>source_mac.
            bindR (deref (heap g) info) (\<lambda>i.
            if user_mac i \<noteq> source_mac then Inr (d, None)
            else
            bindR (iter_second srcIter) (\<lambda>mac.
            bindR (Ethernet_setSource packet ethernet mac) (\<lambda>packet.
            Inr (d, Some (packet, Some info))))))
        | None \<Rightarrow>
            if srcIter \<noteq> None then Inr (d, None) else Inr (d, Some (packet, None)))))))))"

text \<open>The access time of the user; the sum wraps at 64 bits as in C.\<close>

definition touch_user :: "u64 \<Rightarrow> ptr option \<Rightarrow> gateway \<Rightarrow> database \<Rightarrow> (gateway \<times> database) result" where
  "touch_user current_time owner g d =
     (case owner of
        None \<Rightarrow> Inr (g, d)
      | Some p \<Rightarrow>
          bindR (deref (heap g) p) (\<lambda>i.
          if last_access i + timeout i < current_time then
            let i = i\<lparr>last_access := current_time\<rparr> in
            Inr (g\<lparr>heap := um_insert p i (um_erase p (heap g))\<rparr>,
                 updateTime \<lparr>ut_mac = user_mac i, ut_ip = ui_ip i, ut_UTC = current_time\<rparr> d)
          else Inr (g, d)))"

text \<open>What the loop body does with a frame of \<open>readLen\<close> bytes that fits the buffer.\<close>

definition in_frame :: "u64 \<Rightarrow> int \<Rightarrow> server \<Rightarrow> server result" where
  "in_frame current_time readLen s =
     (let packet = inPacket s in
      bindR (Ethernet_getProtocol packet Ethernet_new) (\<lambda>protocol.
      bindR (if protocol = ETHERTYPE_ARP then mapR (Pair (db s)) (in_arp (gw s) packet)
             else if protocol = ETHERTYPE_IP then in_ip (gw s) (db s) packet readLen
             else Inr (db s, Some (packet, None)))
        (\<lambda>(d, verdict). case verdict of
           None \<Rightarrow> Inr (s\<lparr>db := d\<rparr>)
         | Some (packet, owner) \<Rightarrow>
             bindR (touch_user current_time owner (gw s) d) (\<lambda>(g, d).
             bindR (writePacket (outDev g) (inMemory packet) (getLength packet)) (\<lambda>dev.
             Inr (s\<lparr>gw := g\<lparr>outDev := dev\<rparr>, db := d, inPacket := packet\<rparr>))))))"

text \<open>One turn of the inside loop; \<open>False\<close> is the \<^verbatim>\<open>break\<close>. \<open>mem\<close> is the block \<^verbatim>\<open>icmp_mtu\<close> may allocate.\<close>

definition in_step :: "byte list option \<Rightarrow> u64 \<Rightarrow> server \<Rightarrow> (bool \<times> server) result" where
  "in_step mem current_time s =
     (case readPacket (inDev (gw s)) (inMemory (inPacket s)) of (readLen, m, dev) \<Rightarrow>
        let s = s\<lparr>gw := (gw s)\<lparr>inDev := dev\<rparr>, inPacket := (inPacket s)\<lparr>inMemory := m\<rparr>\<rparr> in
        if readLen = -1 then Inr (False, s)
        else if readLen > MY_PACKET_LEN then
          let packet = setLength (inPacket s) MY_PACKET_LEN in
          bindR (icmp_mtu mem (inDev (gw s)) packet (word_of_int MY_MTU)) (\<lambda>dev.
          Inr (True, s\<lparr>gw := (gw s)\<lparr>inDev := dev\<rparr>, inPacket := packet\<rparr>))
        else if readLen < sizeof_ether_header then Inr (True, s)
        else mapR (Pair True)
          (in_frame current_time readLen (s\<lparr>inPacket := setLength (inPacket s) readLen\<rparr>)))"

section \<open>Frames from the outside\<close>

text \<open>The table entry of an address that is not ours any more is dropped.\<close>

definition forget_user :: "u32 \<Rightarrow> ptr \<Rightarrow> gateway \<Rightarrow> gateway result" where
  "forget_user k info g =
     bindR (free_block (heap g) info) (\<lambda>hp. Inr (g\<lparr>heap := hp, userMap := um_erase k (userMap g)\<rparr>))"

definition out_arp :: "gateway \<Rightarrow> packet \<Rightarrow> (gateway \<times> packet option) result" where
  "out_arp g packet =
     (let ethernet = Ethernet_new; arp = ARP_at (Ethernet_getNextOffset ethernet) in
      bindR (ARP_getHeader packet arp) (\<lambda>arp_header.
      if \<not> arp_wanted arp_header then Inr (g, None)
      else
      bindR (ARP_getDestinationIP packet arp) (\<lambda>destIP.
      bindR (ARP_getSourceIP packet arp) (\<lambda>srcIP.
      let destIter = um_find (staticIPMap g) (s_addr destIP);
          srcIter = um_find (staticIPMap g) (s_addr srcIP);
          userIter = um_find (userMap g) (s_addr destIP) in
      if srcIter \<noteq> None then Inr (g, None)
      else (case destIter of
          Some static_mac \<Rightarrow>
            (case userIter of
               Some info \<Rightarrow>
                 bindR (Ethernet_getDestination packet ethernet) (\<lambda>dest_mac.
                 if static_mac \<noteq> dest_mac \<and> ETHER_BROADCAST \<noteq> dest_mac then Inr (g, None)
                 else
                 bindR (deref (heap g) info) (\<lambda>i.
                 bindR (ARP_setDestinationMAC packet arp (user_mac i)) (\<lambda>packet.
                 bindR (Ethernet_setDestination packet ethernet (user_mac i)) (\<lambda>packet.
                 Inr (g, Some packet)))))
             | None \<Rightarrow> Inr (g, Some packet))
        | None \<Rightarrow>
            (case userIter of
               Some info \<Rightarrow> mapR (\<lambda>g. (g, Some packet)) (forget_user (s_addr destIP) info g)
             | None \<Rightarrow> Inr (g, Some packet)))))))"

text \<open>The last test of the IP branch: a DHCP message broadcast by a host without an address.\<close>

definition stray_dhcp :: "packet \<Rightarrow> int \<Rightarrow> byte \<Rightarrow> in_addr \<Rightarrow> in_addr \<Rightarrow> bool result" where
  "stray_dhcp packet udp proto srcIP destIP =
     (if proto = IPPROTO_UDP \<and> IPv4_NONE = srcIP \<and> IPv4_BROADCAST = destIP then
        bindR (UDP_getSource packet udp) (\<lambda>sport.
        bindR (UDP_getDestination packet udp) (\<lambda>dport.
        Inr (sport = 68 \<and> dport = 67 \<or> sport = 67 \<and> dport = 68)))
      else Inr False)"

text \<open>A dropped frame leaves the buffer as the model's caller has it: when the last test drops a frame whose
  destination address has been rewritten already, the six bytes in the buffer are changed in the code and not here.
  Nothing reads them, for the next frame is read over them.\<close>

definition out_ip :: "gateway \<Rightarrow> packet \<Rightarrow> int \<Rightarrow> (gateway \<times> packet option) result" where
  "out_ip g packet readLen =
     (let ethernet = Ethernet_new; ip = Ethernet_getNextOffset ethernet in
      bindR (IP_getNextOffset packet ip) (\<lambda>next.
      if readLen < Ethernet_getNextOffset ethernet + next then Inr (g, None)
      else
      bindR (IP_getProtocol packet ip) (\<lambda>proto.
      bindR (if proto = IPPROTO_UDP then
               let udp = next in
               bindR (UDP_getSource packet udp) (\<lambda>sport.
               bindR (UDP_getDestination packet udp) (\<lambda>dport.
               Inr (sport = 67 \<and> dport = 68)))
             else Inr False) (\<lambda>outer_dhcp.
      if outer_dhcp then Inr (g, None)
      else
      bindR (IP_getDestination packet ip) (\<lambda>destIP.
      bindR (IP_getSource packet ip) (\<lambda>srcIP.
      let destIter = um_find (staticIPMap g) (s_addr destIP);
          srcIter = um_find (staticIPMap g) (s_addr srcIP);
          userIter = um_find (userMap g) (s_addr destIP) in
      if srcIter \<noteq> None then Inr (g, None)
      else
      bindR (case destIter of
          Some static_mac \<Rightarrow>
            (case userIter of
               None \<Rightarrow> Inr (g, None)
             | Some info \<Rightarrow>
                 bindR (Ethernet_getDestination packet ethernet) (\<lambda>dest_mac.
                 if static_mac \<noteq> dest_mac then Inr (g, None)
                 else
                 bindR (deref (heap g) info) (\<lambda>i.
                 bindR (Ethernet_setDestination packet ethernet (user_mac i)) (\<lambda>packet.
                 Inr (g, Some packet)))))
        | None \<Rightarrow>
            (case userIter of
               Some info \<Rightarrow> mapR (\<lambda>g. (g, Some packet)) (forget_user (s_addr destIP) info g)
             | None \<Rightarrow> Inr (g, Some packet)))
        (\<lambda>(g, verdict). case verdict of
           None \<Rightarrow> Inr (g, None)
         | Some packet \<Rightarrow>
      bindR (IP_getProtocol packet ip) (\<lambda>proto.
      bindR (IP_getNextOffset packet ip) (\<lambda>next.
      bindR (stray_dhcp packet next proto srcIP destIP) (\<lambda>stray.
      Inr (g, if stray then None else Some packet)))))))))))"

definition out_frame :: "int \<Rightarrow> server \<Rightarrow> server result" where
  "out_frame readLen s =
     (let packet = outPacket s in
      bindR (Ethernet_getProtocol packet Ethernet_new) (\<lambda>protocol.
      bindR (if protocol = ETHERTYPE_ARP then out_arp (gw s) packet
             else if protocol = ETHERTYPE_IP then out_ip (gw s) packet readLen
             else Inr (gw s, Some packet))
        (\<lambda>(g, verdict). case verdict of
           None \<Rightarrow> Inr (s\<lparr>gw := g\<rparr>)
         | Some packet \<Rightarrow>
             bindR (writePacket (inDev g) (inMemory packet) (getLength packet)) (\<lambda>dev.
             Inr (s\<lparr>gw := g\<lparr>inDev := dev\<rparr>, outPacket := packet\<rparr>)))))"

definition out_step :: "byte list option \<Rightarrow> server \<Rightarrow> (bool \<times> server) result" where
  "out_step mem s =
     (case readPacket (outDev (gw s)) (inMemory (outPacket s)) of (readLen, m, dev) \<Rightarrow>
        let s = s\<lparr>gw := (gw s)\<lparr>outDev := dev\<rparr>, outPacket := (outPacket s)\<lparr>inMemory := m\<rparr>\<rparr> in
        if readLen = -1 then Inr (False, s)
        else if readLen > MY_PACKET_LEN then
          let packet = setLength (outPacket s) MY_PACKET_LEN in
          bindR (icmp_mtu mem (outDev (gw s)) packet (word_of_int MY_MTU)) (\<lambda>dev.
          Inr (True, s\<lparr>gw := (gw s)\<lparr>outDev := dev\<rparr>, outPacket := packet\<rparr>))
        else mapR (Pair True) (out_frame readLen (s\<lparr>outPacket := setLength (outPacket s) readLen\<rparr>)))"

section \<open>The loop\<close>

text \<open>\<^verbatim>\<open>for(burst = 0; burst < IO_BURST; burst++)\<close> with its break; \<open>n\<close> counts the turns, \<open>left\<close> is what
  remains of the bound.\<close>

fun burst_loop :: "(nat \<Rightarrow> server \<Rightarrow> (bool \<times> server) result) \<Rightarrow> nat \<Rightarrow> nat \<Rightarrow> server \<Rightarrow> (nat \<times> server) result" where
  "burst_loop step 0 n s = Inr (n, s)"
| "burst_loop step (Suc left) n s =
     bindR (step n s) (\<lambda>(go, s). if go then burst_loop step left (Suc n) s else Inr (n, s))"

text \<open>The handlers registered with the event base. A handler runs when its counter is not zero.\<close>

datatype handler = H_term | H_add_static | H_del_static | H_add_user | H_del_user | H_send

fun ready :: "gateway \<Rightarrow> handler \<Rightarrow> bool" where
  "ready g H_term \<longleftrightarrow> termEvent g > 0"
| "ready g H_add_static \<longleftrightarrow> pending (staticIPAddRequest g) > 0"
| "ready g H_del_static \<longleftrightarrow> pending (staticIPDelRequest g) > 0"
| "ready g H_add_user \<longleftrightarrow> pending (userAddRequest g) > 0"
| "ready g H_del_user \<longleftrightarrow> pending (userDelRequest g) > 0"
| "ready g H_send \<longleftrightarrow> pending (sendPacketRequestQueue g) > 0"

fun run_handler :: "handler \<Rightarrow> gateway \<Rightarrow> gateway result" where
  "run_handler H_term g = Inr (terminate_gateway g)"
| "run_handler H_add_static g = add_static_ip g"
| "run_handler H_del_static g = del_static_ip g"
| "run_handler H_add_user g = add_user g"
| "run_handler H_del_user g = del_user g"
| "run_handler H_send g = send_packet g"

definition event_base_loop :: "handler list \<Rightarrow> gateway \<Rightarrow> gateway result" where
  "event_base_loop order g = foldR (\<lambda>h g. if ready g h then run_handler h g else Inr g) order g"

record turn =
  current_time :: u64
  in_mem :: "nat \<Rightarrow> byte list option"
  out_mem :: "nat \<Rightarrow> byte list option"
  event_order :: "handler list"

definition serve_turn :: "turn \<Rightarrow> server \<Rightarrow> server result" where
  "serve_turn t s =
     bindR (burst_loop (\<lambda>k. in_step (in_mem t k) (current_time t)) IO_BURST 0 s) (\<lambda>(inBurst, s).
     bindR (burst_loop (\<lambda>k. out_step (out_mem t k)) IO_BURST 0 s) (\<lambda>(outBurst, s).
     bindR (event_base_loop (event_order t) (gw s)) (\<lambda>g. Inr (s\<lparr>gw := g\<rparr>))))"

fun serve :: "turn list \<Rightarrow> server \<Rightarrow> server result" where
  "serve [] s = Inr s"
| "serve (t # ts) s = (if gotExit (gw s) then Inr s else bindR (serve_turn t s) (serve ts))"

end
