(* ===== verification/Frame_View.thy ===== *)
theory Frame_View
  imports ARP DHCP ICMP
begin

text \<open>
  A frame as a list of bytes: its fields at their positions in the Ethernet, ARP, IPv4, UDP and DHCP
  headers, and that the getters of the header classes read exactly these. The filter
  specifications of the gateway are written over these fields.
\<close>

section \<open>Fields\<close>

definition fr_dst :: "byte list \<Rightarrow> ether_addr" where
  "fr_dst f = ether_of (segment 0 6 f)"

definition fr_src :: "byte list \<Rightarrow> ether_addr" where
  "fr_src f = ether_of (segment 6 12 f)"

text \<open>A frame without room for the type field counts as type 0.\<close>

definition fr_type :: "byte list \<Rightarrow> u16" where
  "fr_type f = (if length f < 14 then 0 else ntohs (le16 (segment 12 14 f)))"

definition fr_arp :: "byte list \<Rightarrow> arphdr" where
  "fr_arp f = (if length f < 22 then arphdr_zero else arphdr_swap (arphdr_of (segment 14 22 f)))"

definition fr_arp_sip :: "byte list \<Rightarrow> in_addr" where
  "fr_arp_sip f = in_addr_of (segment 28 32 f)"

definition fr_arp_dip :: "byte list \<Rightarrow> in_addr" where
  "fr_arp_dip f = in_addr_of (segment 38 42 f)"

text \<open>A frame without an IP header counts as one with the longest header.\<close>

definition fr_hlen :: "byte list \<Rightarrow> nat" where
  "fr_hlen f = (if length f \<le> 14 then 60 else nat (ip_hlen (f ! 14)))"

definition fr_proto :: "byte list \<Rightarrow> byte" where
  "fr_proto f = f ! 23"

definition fr_sip :: "byte list \<Rightarrow> in_addr" where
  "fr_sip f = in_addr_of (segment 26 30 f)"

definition fr_dip :: "byte list \<Rightarrow> in_addr" where
  "fr_dip f = in_addr_of (segment 30 34 f)"

definition fr_sport :: "byte list \<Rightarrow> u16" where
  "fr_sport f = (let u = 14 + fr_hlen f in ntohs (le16 (segment u (u + 2) f)))"

definition fr_dport :: "byte list \<Rightarrow> u16" where
  "fr_dport f = (let u = 14 + fr_hlen f in ntohs (le16 (segment (u + 2) (u + 4) f)))"

text \<open>The DHCP message behind the UDP header.\<close>

definition fr_dhcp :: "byte list \<Rightarrow> byte list" where
  "fr_dhcp f = drop (22 + fr_hlen f) f"

text \<open>Writing a hardware address at a position.\<close>

definition put_mac :: "nat \<Rightarrow> ether_addr \<Rightarrow> byte list \<Rightarrow> byte list" where
  "put_mac k mac f = overwrite k (octets mac) f"

lemma length_put_mac [simp]: "k + 6 \<le> length f \<Longrightarrow> length (put_mac k mac f) = length f"
  by (simp add: put_mac_def)

section \<open>The getters read the fields\<close>

lemma fr_hlen_range: "20 \<le> fr_hlen f" "fr_hlen f \<le> 60"
  using ip_hlen_range [of "f ! 14"] by (auto simp: fr_hlen_def le_nat_iff nat_le_iff)

lemma nth_frame: "k < nat (writtenByte p) \<Longrightarrow> frame p ! k = inMemory p ! k"
  by (simp add: frame_def)

lemma eth_fields:
  assumes "wf_packet p" and "14 \<le> writtenByte p"
  shows "Ethernet_getSource p 0 = Inr (fr_src (frame p))"
    and "Ethernet_getDestination p 0 = Inr (fr_dst (frame p))"
  using assms by (simp_all add: wire segment_frame fr_src_def fr_dst_def)

lemma eth_type:
  assumes "wf_packet p"
  shows "Ethernet_getProtocol p 0 = Inr (fr_type (frame p))"
proof (cases "14 \<le> writtenByte p")
  case False
  then have "nat (writtenByte p) < 14" by simp
  with False show ?thesis using assms by (simp add: eth_proto.get_outside fr_type_def)
qed (use assms in \<open>simp add: wire segment_frame fr_type_def nat_less_iff\<close>)

lemma arp_fields:
  assumes "wf_packet p" and "42 \<le> writtenByte p"
  shows "ARP_getSourceIP p 14 = Inr (fr_arp_sip (frame p))"
    and "ARP_getDestinationIP p 14 = Inr (fr_arp_dip (frame p))"
  using assms by (simp_all add: wire segment_frame fr_arp_sip_def fr_arp_dip_def)

lemma arp_hdr_field:
  assumes "wf_packet p"
  shows "ARP_getHeader p 14 = Inr (fr_arp (frame p))"
proof (cases "22 \<le> writtenByte p")
  case False
  then have "nat (writtenByte p) < 22" by simp
  with False show ?thesis using assms by (simp add: arp_header.get_outside fr_arp_def)
qed (use assms in \<open>simp add: wire segment_frame fr_arp_def nat_less_iff\<close>)

lemma ip_next_field:
  assumes "wf_packet p"
  shows "IP_getNextOffset p 14 = Inr (14 + int (fr_hlen (frame p)))"
proof (cases "14 < writtenByte p")
  case True
  then have "\<not> nat (writtenByte p) \<le> 14" by simp
  with True show ?thesis
    using assms ip_hlen_range [of "inMemory p ! 14"]
    by (simp add: IP_getNextOffset_inside fr_hlen_def nth_frame)
qed (use assms in \<open>simp add: IP_getNextOffset_outside fr_hlen_def\<close>)

lemma ip_fields:
  assumes "wf_packet p" and "34 \<le> writtenByte p"
  shows "IP_getSource p 14 = Inr (fr_sip (frame p))"
    and "IP_getDestination p 14 = Inr (fr_dip (frame p))"
    and "IP_getProtocol p 14 = Inr (fr_proto (frame p))"
  using assms segment_one [of 23 "inMemory p"]
  by (simp_all add: wire segment_frame fr_sip_def fr_dip_def fr_proto_def nth_frame wf_packet_def)

lemma udp_fields:
  assumes "wf_packet p" and "18 + int (fr_hlen (frame p)) \<le> writtenByte p"
  shows "UDP_getSource p (14 + int (fr_hlen (frame p))) = Inr (fr_sport (frame p))"
    and "UDP_getDestination p (14 + int (fr_hlen (frame p))) = Inr (fr_dport (frame p))"
proof -
  have "nat (14 + int (fr_hlen (frame p))) = 14 + fr_hlen (frame p)"
    "nat (16 + int (fr_hlen (frame p))) = 16 + fr_hlen (frame p)"
    "nat (18 + int (fr_hlen (frame p))) = 18 + fr_hlen (frame p)" by simp_all
  then show "UDP_getSource p (14 + int (fr_hlen (frame p))) = Inr (fr_sport (frame p))"
    "UDP_getDestination p (14 + int (fr_hlen (frame p))) = Inr (fr_dport (frame p))"
    using assms by (simp_all add: wire segment_frame fr_sport_def fr_dport_def Let_def add.commute)
qed

section \<open>The setters write the fields\<close>

text \<open>A packet with its frame replaced by another of the same length.\<close>

definition with_frame :: "packet \<Rightarrow> byte list \<Rightarrow> packet" where
  "with_frame p f = p\<lparr>inMemory := overwrite 0 f (inMemory p)\<rparr>"

lemma with_frame_fields [simp]:
  "writtenByte (with_frame p f) = writtenByte p" "capacity (with_frame p f) = capacity p"
  by (simp_all add: with_frame_def)

lemma frame_with_frame [simp]:
  "wf_packet p \<Longrightarrow> int (length f) = writtenByte p \<Longrightarrow> frame (with_frame p f) = f"
  by (auto simp: frame_def with_frame_def overwrite_0 wf_packet_def)

lemma wf_with_frame [simp]:
  "wf_packet p \<Longrightarrow> int (length f) = writtenByte p \<Longrightarrow> wf_packet (with_frame p f)"
  by (auto simp: with_frame_def wf_packet_def)

lemma with_frame_twice [simp]:
  "length f = length f' \<Longrightarrow> with_frame (with_frame p f) f' = with_frame p f'"
  by (simp add: with_frame_def overwrite_0)

lemma with_frame_same [simp]: "wf_packet p \<Longrightarrow> with_frame p (frame p) = p"
  by (simp add: with_frame_def frame_def overwrite_0 wf_packet_def min_def)

lemma overwrite_take:
  "k + length b \<le> n \<Longrightarrow> n \<le> length m \<Longrightarrow> overwrite 0 (overwrite k b (take n m)) m = overwrite k b m"
  by (simp add: overwrite_def min_def drop_take)
    (metis append_take_drop_id drop_drop le_add_diff_inverse2)

lemma with_frame_put:
  assumes "wf_packet p" and "int k + 6 \<le> writtenByte p"
  shows "p\<lparr>inMemory := overwrite k (octets mac) (inMemory p)\<rparr> = with_frame p (put_mac k mac (frame p))"
proof -
  have "k + 6 \<le> nat (writtenByte p)" "nat (writtenByte p) \<le> length (inMemory p)"
    using assms by (auto simp: wf_packet_def)
  then show ?thesis
    using overwrite_take [of k "octets mac" "nat (writtenByte p)" "inMemory p"]
    by (simp add: with_frame_def put_mac_def frame_def)
qed

lemma eth_set:
  assumes "wf_packet p" and "14 \<le> writtenByte p"
  shows "Ethernet_setSource p 0 mac = Inr (with_frame p (put_mac 6 mac (frame p)))"
    and "Ethernet_setDestination p 0 mac = Inr (with_frame p (put_mac 0 mac (frame p)))"
  using assms with_frame_put [of p 6 mac] with_frame_put [of p 0 mac] by (simp_all add: wire)

lemma arp_set:
  assumes "wf_packet p" and "42 \<le> writtenByte p"
  shows "ARP_setSourceMAC p 14 mac = Inr (with_frame p (put_mac 22 mac (frame p)))"
    and "ARP_setDestinationMAC p 14 mac = Inr (with_frame p (put_mac 32 mac (frame p)))"
  using assms with_frame_put [of p 22 mac] with_frame_put [of p 32 mac] by (simp_all add: wire)

text \<open>What writing an address leaves alone.\<close>

lemma segment_put_mac:
  "k + 6 \<le> length f \<Longrightarrow> j \<le> k \<or> k + 6 \<le> i \<Longrightarrow> j \<le> length f \<Longrightarrow> segment i j (put_mac k mac f) = segment i j f"
  by (auto simp: put_mac_def intro!: segment_overwrite_disjoint)

lemma put_mac_eth:
  "12 \<le> length f \<Longrightarrow> fr_src (put_mac 6 mac f) = mac" "12 \<le> length f \<Longrightarrow> fr_dst (put_mac 6 mac f) = fr_dst f"
  "12 \<le> length f \<Longrightarrow> fr_src (put_mac 0 mac f) = fr_src f" "6 \<le> length f \<Longrightarrow> fr_dst (put_mac 0 mac f) = mac"
  using segment_overwrite_same [of 6 "octets mac" f] segment_overwrite_same [of 0 "octets mac" f]
  by (simp_all add: fr_src_def fr_dst_def segment_put_mac) (simp_all add: put_mac_def)

end
