(* ===== verification/Filter_Spec.thy ===== *)
theory Filter_Spec
  imports Frame_View Gateway
begin

text \<open>
  What the gateway promises about one frame, as functions of the address tables and the bytes of
  the frame: which frames leave towards the outside and in which form, which client messages are
  handed to the DHCP service, and which frames are let in. The tables are finite maps: the static
  addresses with the hardware address shown outside, and the registered users.
\<close>

type_synonym statics = "u32 \<Rightarrow> ether_addr option"
type_synonym users = "u32 \<Rightarrow> userInfo option"

text \<open>An Ethernet/IPv4 ARP request or reply.\<close>

definition arp_valid :: "byte list \<Rightarrow> bool" where
  "arp_valid f \<longleftrightarrow> 22 \<le> length f \<and> segment 14 20 f = [0, 1, 8, 0, 6, 4] \<and>
     (segment 20 22 f = [0, 1] \<or> segment 20 22 f = [0, 2])"

section \<open>From the inside\<close>

text \<open>A sender may use an address of ours only as the user registered for it, from the hardware
  address it registered with; it then appears outside under the static hardware address. The
  result is the frame and the address whose user it is accounted to.\<close>

definition claim_source ::
  "statics \<Rightarrow> users \<Rightarrow> u32 \<Rightarrow> (ether_addr \<Rightarrow> byte list \<Rightarrow> byte list) \<Rightarrow> byte list \<Rightarrow> (byte list \<times> u32 option) option" where
  "claim_source st us k rewrite f =
     (case us k of
        Some i \<Rightarrow> if user_mac i = fr_src f then map_option (\<lambda>mac. (rewrite mac f, Some k)) (st k) else None
      | None \<Rightarrow> if st k = None then Some (f, None) else None)"

definition arp_out :: "statics \<Rightarrow> users \<Rightarrow> byte list \<Rightarrow> (byte list \<times> u32 option) option" where
  "arp_out st us f =
     (if \<not> arp_valid f \<or> st (s_addr (fr_arp_dip f)) \<noteq> None then None
      else claim_source st us (s_addr (fr_arp_sip f)) (\<lambda>mac f. put_mac 6 mac (put_mac 22 mac f)) f)"

text \<open>Long enough to be looked at: 14 bytes more than the headers.\<close>

definition ip_readable :: "byte list \<Rightarrow> bool" where
  "ip_readable f \<longleftrightarrow> 28 + fr_hlen f \<le> length f"

definition udp_ports :: "byte list \<Rightarrow> u16 \<Rightarrow> u16 \<Rightarrow> bool" where
  "udp_ports f sport dport \<longleftrightarrow> fr_proto f = IPPROTO_UDP \<and> fr_sport f = sport \<and> fr_dport f = dport"

definition ip_out :: "statics \<Rightarrow> users \<Rightarrow> byte list \<Rightarrow> (byte list \<times> u32 option) option" where
  "ip_out st us f =
     (if \<not> ip_readable f \<or> udp_ports f 68 67 \<or> st (s_addr (fr_dip f)) \<noteq> None then None
      else claim_source st us (s_addr (fr_sip f)) (put_mac 6) f)"

definition frame_out :: "statics \<Rightarrow> users \<Rightarrow> byte list \<Rightarrow> (byte list \<times> u32 option) option" where
  "frame_out st us f =
     (if fr_type f = ETHERTYPE_ARP then arp_out st us f
      else if fr_type f = ETHERTYPE_IP then ip_out st us f
      else Some (f, None))"

text \<open>The request a client's DHCP message stands for.\<close>

definition dhcp_of :: "byte list \<Rightarrow> dhcp_request option" where
  "dhcp_of f =
     (let m = fr_dhcp f in
      if m ! 0 = 1 \<and> 242 < length m \<and> (m ! 242 = 1 \<or> m ! 242 = 3) \<and>
         ether_of (segment 28 34 m) = fr_src f
      then Some \<lparr>dr_mac = fr_src f, dr_transID = le32 (segment 4 8 m), dr_mtu = 1500,
                 dr_isDiscover = (m ! 242 = 1)\<rparr>
      else None)"

definition frame_dhcp :: "byte list \<Rightarrow> dhcp_request option" where
  "frame_dhcp f =
     (if fr_type f = ETHERTYPE_IP \<and> ip_readable f \<and> udp_ports f 68 67 then dhcp_of f else None)"

section \<open>From the outside\<close>

definition arp_in :: "statics \<Rightarrow> users \<Rightarrow> byte list \<Rightarrow> byte list option" where
  "arp_in st us f =
     (if \<not> arp_valid f \<or> st (s_addr (fr_arp_sip f)) \<noteq> None then None
      else (case (st (s_addr (fr_arp_dip f)), us (s_addr (fr_arp_dip f))) of
          (Some mac, Some i) \<Rightarrow>
            if fr_dst f = mac \<or> fr_dst f = EtherAddr 0xFF 0xFF 0xFF 0xFF 0xFF 0xFF
            then Some (put_mac 0 (user_mac i) (put_mac 32 (user_mac i) f)) else None
        | _ \<Rightarrow> Some f))"

definition ip_in :: "statics \<Rightarrow> users \<Rightarrow> byte list \<Rightarrow> byte list option" where
  "ip_in st us f =
     (if \<not> ip_readable f \<or> udp_ports f 67 68 \<or> st (s_addr (fr_sip f)) \<noteq> None \<or>
         s_addr (fr_sip f) = 0 \<and> s_addr (fr_dip f) = 0xFFFFFFFF \<and> udp_ports f 68 67 then None
      else (case st (s_addr (fr_dip f)) of
          None \<Rightarrow> Some f
        | Some mac \<Rightarrow>
            (case us (s_addr (fr_dip f)) of
               Some i \<Rightarrow> if fr_dst f = mac then Some (put_mac 0 (user_mac i) f) else None
             | None \<Rightarrow> None)))"

definition frame_in :: "statics \<Rightarrow> users \<Rightarrow> byte list \<Rightarrow> byte list option" where
  "frame_in st us f =
     (if fr_type f = ETHERTYPE_ARP then arp_in st us f
      else if fr_type f = ETHERTYPE_IP then ip_in st us f
      else Some f)"

text \<open>The address whose stale table entry the frame makes the gateway drop.\<close>

definition stale :: "statics \<Rightarrow> users \<Rightarrow> byte list \<Rightarrow> u32 option" where
  "stale st us f =
     (if fr_type f = ETHERTYPE_ARP then
        if arp_valid f \<and> st (s_addr (fr_arp_sip f)) = None \<and>
           st (s_addr (fr_arp_dip f)) = None \<and> us (s_addr (fr_arp_dip f)) \<noteq> None
        then Some (s_addr (fr_arp_dip f)) else None
      else if fr_type f = ETHERTYPE_IP then
        if ip_readable f \<and> \<not> udp_ports f 67 68 \<and> st (s_addr (fr_sip f)) = None \<and>
           st (s_addr (fr_dip f)) = None \<and> us (s_addr (fr_dip f)) \<noteq> None
        then Some (s_addr (fr_dip f)) else None
      else None)"

section \<open>Preconditions\<close>

text \<open>An ARP frame the filter looks at has all its addresses, as every padded Ethernet frame has.\<close>

definition arp_complete :: "byte list \<Rightarrow> bool" where
  "arp_complete f \<longleftrightarrow> (fr_type f = ETHERTYPE_ARP \<and> arp_valid f \<longrightarrow> 42 \<le> length f)"

text \<open>Every registered user has a static address.\<close>

definition users_static :: "gateway \<Rightarrow> bool" where
  "users_static g \<longleftrightarrow> list_all (\<lambda>(k, _). um_find (staticIPMap g) k \<noteq> None) (userMap g)"

end
