(* ===== verification/Gateway_Filter.thy ===== *)
theory Gateway_Filter
  imports Gateway_Serve Filter_Spec
begin

text \<open>
  The forwarding loop implements the filter specification: for one frame from either side the code
  sends exactly the bytes the specification gives, hands exactly the specified requests to the
  database, and keeps the invariants; no step of it can fault unless a user's address has lost its
  static entry or an ARP frame is cut short.
\<close>

section \<open>Inside\<close>

lemma arp_wanted_valid: "arp_wanted (fr_arp f) \<longleftrightarrow> arp_valid f"
proof (cases "22 \<le> length f")
  case True
  define h where "h = segment 14 22 f"
  have len: "length h = 8" using True by (simp add: h_def)
  have parts: "segment 14 20 f = take 6 h" "segment 20 22 f = drop 6 h"
    using True by (simp_all add: h_def segment_def drop_take)
  obtain a b c d e g i j where h: "h = [a, b, c, d, e, g, i, j]"
    using len by (auto simp: length_Suc_conv numeral_eq_Suc)
  have ar: "fr_arp f = arphdr_swap (arphdr_of h)" using True by (simp add: fr_arp_def h_def)
  have w: "htons (le16 [x, y]) = v \<longleftrightarrow> [x, y] = bytes16 (htons v)" for x y v
    using field16_eq [of "[x, y]" v] by (simp add: ntohs_eq_htons)
  have b: "uint x = n \<longleftrightarrow> x = word_of_int n" if "0 \<le> n" "n < 256" for x :: byte and n
    using that by (auto simp: word_uint_eq_iff uint_word_of_int)
  have z: "(2048 :: byte) = 0" by simp
  show ?thesis
    using True
    by (simp add: arp_wanted_def ar arphdr_swap_def arphdr_of_def arp_valid_def parts h w b sizes
        bytes16_htons z del: le16.simps) blast
qed (simp add: arp_wanted_def fr_arp_def arp_valid_def arphdr_zero_def sizes)

text \<open>How the code holds a verdict of the specification.\<close>

definition as_packet :: "gateway \<Rightarrow> packet \<Rightarrow> byte list \<times> u32 option \<Rightarrow> packet \<times> ptr option" where
  "as_packet g p v = (with_frame p (fst v), case snd v of None \<Rightarrow> None | Some k \<Rightarrow> um_find (userMap g) k)"

lemma registered_iff:
  assumes "gateway_ok g"
  shows "um_find (userMap g) k = None \<longleftrightarrow> registered g k = None"
    and "um_find (userMap g) k = Some p \<Longrightarrow> deref (heap g) p = Inr (the (registered g k))"
    and "um_find (userMap g) k = Some p \<Longrightarrow> registered g k = um_find (heap g) p"
    and "um_find (userMap g) k = Some p \<Longrightarrow> um_find (heap g) p = Some (the (registered g k))"
proof -
  have owned: "\<exists>i. um_find (heap g) p = Some i" if "um_find (userMap g) k = Some p" for p
    using assms heap_ok_user [OF _ that, of "requests (userAddRequest g)" "heap g"]
    by (auto simp: gateway_ok_def)
  show "um_find (userMap g) k = None \<longleftrightarrow> registered g k = None"
    using owned by (auto simp: registered_def user_view_pair split: option.splits)
  show "um_find (userMap g) k = Some p \<Longrightarrow> deref (heap g) p = Inr (the (registered g k))"
    "um_find (userMap g) k = Some p \<Longrightarrow> registered g k = um_find (heap g) p"
    "um_find (userMap g) k = Some p \<Longrightarrow> um_find (heap g) p = Some (the (registered g k))"
    using owned [of p] by (auto simp: registered_def user_view_pair deref_def)
qed

lemma users_static_iff:
  assumes "gateway_ok g" and "users_static g" and "registered g k = Some i"
  shows "\<exists>mac. um_find (staticIPMap g) k = Some mac"
proof -
  obtain p where "um_find (userMap g) k = Some p" using assms registered_iff(1) [of g k] by auto
  then have "(k, p) \<in> set (userMap g)"
    using assms(1) by (simp add: um_find_entry gateway_ok_def heap_ok_def)
  with assms(2) show ?thesis by (auto simp: users_static_def list_all_iff)
qed

text \<open>The common end of the two inside branches: who may use the source address.\<close>

lemma claim_cases:
  assumes ok: "gateway_ok g" and us: "users_static g"
  obtains (none) "um_find (userMap g) k = None" "claim_source (um_find (staticIPMap g)) (registered g) k rw f =
      (if um_find (staticIPMap g) k = None then Some (f, None) else None)"
  | (user) p i mac where "um_find (userMap g) k = Some p" "registered g k = Some i"
      "deref (heap g) p = Inr i" "um_find (staticIPMap g) k = Some mac"
      "claim_source (um_find (staticIPMap g)) (registered g) k rw f =
        (if user_mac i = fr_src f then Some (rw mac f, Some k) else None)"
proof (cases "um_find (userMap g) k")
  case None
  then show ?thesis using none registered_iff(1) [OF ok] by (simp add: claim_source_def)
next
  case (Some p)
  obtain i where i: "registered g k = Some i" "deref (heap g) p = Inr i"
    using registered_iff [OF ok, of k] Some by fastforce
  from users_static_iff [OF ok us i(1)] obtain mac where "um_find (staticIPMap g) k = Some mac" ..
  with Some i show ?thesis using user by (simp add: claim_source_def)
qed

lemma in_arp_refines:
  assumes ok: "gateway_ok g" "users_static g" and wf: "wf_packet p" and len: "14 \<le> writtenByte p"
    and arp: "arp_valid (frame p) \<longrightarrow> 42 \<le> writtenByte p"
  shows "in_arp g p = Inr (map_option (as_packet g p)
    (arp_out (um_find (staticIPMap g)) (registered g) (frame p)))"
proof (cases "arp_valid (frame p)")
  case False
  then show ?thesis
    using wf by (simp add: in_arp_def arp_hdr_field arp_wanted_valid arp_out_def Let_def)
next
  case True
  then have 42: "42 \<le> writtenByte p" using arp by simp
  have nat42: "42 \<le> nat (writtenByte p)" using 42 by simp
  let ?k = "s_addr (fr_arp_sip (frame p))"
  show ?thesis
    by (rule claim_cases [OF ok, of ?k "\<lambda>mac f. put_mac 6 mac (put_mac 22 mac f)" "frame p"])
      (use True wf 42 nat42 in \<open>auto simp: in_arp_def arp_hdr_field arp_wanted_valid arp_out_def arp_fields
        eth_fields arp_set eth_set iter_second_def as_packet_def Let_def\<close>)
qed

text \<open>The DHCP branch.\<close>

lemma dhcp_fields:
  assumes wf: "wf_packet p" and len: "int (264 + fr_hlen (frame p)) < writtenByte p"
  defines "off \<equiv> 22 + int (fr_hlen (frame p))"
  shows "DHCP_getClientMAC p off = Inr (ether_of (segment 28 34 (fr_dhcp (frame p))))"
    and "DHCP_getTransactionID p off = Inr (le32 (segment 4 8 (fr_dhcp (frame p))))"
    and "DHCP_getMessageType p off = Inr (uint (fr_dhcp (frame p) ! 242))"
proof -
  let ?h = "fr_hlen (frame p)"
  have big: "264 + ?h < nat (writtenByte p)" using len by simp
  have sub: "segment (nat (off + int a)) (nat (off + int b)) (inMemory p) = segment a b (fr_dhcp (frame p))"
    if "b \<le> 242" for a b
  proof -
    have "segment (22 + ?h + a) (22 + ?h + b) (frame p) = segment a b (fr_dhcp (frame p))"
      by (simp add: segment_def fr_dhcp_def add.commute)
    moreover have "nat (off + int a) = 22 + ?h + a" "nat (off + int b) = 22 + ?h + b"
      by (simp_all add: off_def)
    ultimately show ?thesis using that big by (simp add: segment_frame)
  qed
  show "DHCP_getClientMAC p off = Inr (ether_of (segment 28 34 (fr_dhcp (frame p))))"
    "DHCP_getTransactionID p off = Inr (le32 (segment 4 8 (fr_dhcp (frame p))))"
    using wf len sub [of 34 28] sub [of 8 4]
    by (simp_all add: DHCP_getClientMAC_def DHCP_getTransactionID_def readByteArray_inside into_uninit_def
        off_def)
  have "fr_dhcp (frame p) ! 242 = inMemory p ! (264 + ?h)"
    using big wf by (simp add: fr_dhcp_def nth_frame)
  then show "DHCP_getMessageType p off = Inr (uint (fr_dhcp (frame p) ! 242))"
    using wf len by (simp add: DHCP_getMessageType_def readByte_inside off_def nat_add_distrib)
qed

lemma dhcp_type_short:
  assumes "wf_packet p" and "writtenByte p \<le> int (264 + fr_hlen (frame p))"
  shows "DHCP_getMessageType p (22 + int (fr_hlen (frame p))) = Inr (-1)"
  using assms by (simp add: DHCP_getMessageType_def)

lemma dhcp_opcode:
  assumes "wf_packet p" and "int (22 + fr_hlen (frame p)) < writtenByte p"
  shows "DHCP_getOpcode p (22 + int (fr_hlen (frame p))) = Inr (fr_dhcp (frame p) ! 0)"
proof -
  have "22 + fr_hlen (frame p) < nat (writtenByte p)" using assms(2) by simp
  then have "fr_dhcp (frame p) ! 0 = inMemory p ! (22 + fr_hlen (frame p))"
    using assms(1) by (simp add: fr_dhcp_def nth_frame)
  then show ?thesis
    using assms by (simp add: DHCP_getOpcode_def readByte_inside nat_add_distrib)
qed

lemma in_dhcp_refines:
  assumes wf: "wf_packet p" and len: "int (28 + fr_hlen (frame p)) \<le> writtenByte p"
  shows "in_dhcp d p (22 + int (fr_hlen (frame p))) =
    Inr (case dhcp_of (frame p) of None \<Rightarrow> d | Some r \<Rightarrow> createDHCP r d)"
proof (cases "int (264 + fr_hlen (frame p)) < writtenByte p")
  case True
  have big: "242 < length (fr_dhcp (frame p))" using True wf by (simp add: fr_dhcp_def)
  have b: "uint x = 1 \<longleftrightarrow> x = 1" "uint x = 3 \<longleftrightarrow> x = 3" for x :: byte
    by (auto simp: word_uint_eq_iff)
  show ?thesis
    using wf len True big
    by (auto simp: in_dhcp_def dhcp_opcode dhcp_fields eth_fields dhcp_of_def b sizes Let_def)
next
  case False
  have "\<not> 242 < length (fr_dhcp (frame p))" using False wf by (auto simp: fr_dhcp_def)
  then show ?thesis
    using wf len False by (simp add: in_dhcp_def dhcp_opcode dhcp_type_short dhcp_of_def Let_def)
qed

definition dhcp_step :: "byte list \<Rightarrow> database \<Rightarrow> database" where
  "dhcp_step f d = (case frame_dhcp f of None \<Rightarrow> d | Some r \<Rightarrow> createDHCP r d)"

text \<open>The reads at the head of both IP branches.\<close>

lemma ip_head:
  assumes wf: "wf_packet p" and rd: "ip_readable (frame p)"
  shows "28 + int (fr_hlen (frame p)) \<le> writtenByte p" and "48 \<le> writtenByte p"
    and "IP_getSource p 14 = Inr (fr_sip (frame p))" and "IP_getDestination p 14 = Inr (fr_dip (frame p))"
    and "IP_getProtocol p 14 = Inr (fr_proto (frame p))"
    and "UDP_getSource p (14 + int (fr_hlen (frame p))) = Inr (fr_sport (frame p))"
    and "UDP_getDestination p (14 + int (fr_hlen (frame p))) = Inr (fr_dport (frame p))"
proof -
  show len: "28 + int (fr_hlen (frame p)) \<le> writtenByte p"
    using assms by (auto simp: ip_readable_def wf_packet_def)
  then show "48 \<le> writtenByte p" using fr_hlen_range(1) [of "frame p"] by simp
  then show "IP_getSource p 14 = Inr (fr_sip (frame p))" "IP_getDestination p 14 = Inr (fr_dip (frame p))"
    "IP_getProtocol p 14 = Inr (fr_proto (frame p))"
    "UDP_getSource p (14 + int (fr_hlen (frame p))) = Inr (fr_sport (frame p))"
    "UDP_getDestination p (14 + int (fr_hlen (frame p))) = Inr (fr_dport (frame p))"
    using wf len by (simp_all add: ip_fields udp_fields)
qed

lemma ip_unreadable:
  "wf_packet p \<Longrightarrow> \<not> ip_readable (frame p) \<Longrightarrow> writtenByte p < 28 + int (fr_hlen (frame p))"
  by (auto simp: ip_readable_def wf_packet_def)

lemma in_ip_refines:
  assumes ok: "gateway_ok g" "users_static g" and wf: "wf_packet p" and ty: "fr_type (frame p) = ETHERTYPE_IP"
  shows "in_ip g d p (writtenByte p) = Inr (dhcp_step (frame p) d, map_option (as_packet g p)
    (ip_out (um_find (staticIPMap g)) (registered g) (frame p)))"
proof (cases "ip_readable (frame p)")
  case False
  then show ?thesis
    using wf ip_unreadable [OF wf False]
    by (simp add: in_ip_def ip_next_field ip_out_def dhcp_step_def frame_dhcp_def sizes)
next
  case True
  note head = ip_head [OF wf True]
  let ?k = "s_addr (fr_sip (frame p))"
  show ?thesis
  proof (cases "udp_ports (frame p) 68 67")
    case udp: True
    then have "dhcp_step (frame p) d = (case dhcp_of (frame p) of None \<Rightarrow> d | Some r \<Rightarrow> createDHCP r d)"
      using True ty by (simp add: dhcp_step_def frame_dhcp_def)
    then show ?thesis
      using udp head wf by (simp add: in_ip_def ip_next_field ip_out_def udp_ports_def DHCP_at_def
          in_dhcp_refines sizes Let_def)
  next
    case udp: False
    then have d: "dhcp_step (frame p) d = d" by (simp add: dhcp_step_def frame_dhcp_def)
    show ?thesis
      by (rule claim_cases [OF ok, of ?k "put_mac 6" "frame p"])
        (use True udp wf head in \<open>auto simp: in_ip_def ip_next_field ip_out_def d eth_fields udp_ports_def eth_set
          iter_second_def as_packet_def sizes Let_def\<close>)
  qed
qed

section \<open>Accounting\<close>

definition accessed :: "u64 \<Rightarrow> userInfo \<Rightarrow> userInfo" where
  "accessed now i = (if last_access i + timeout i < now then i\<lparr>last_access := now\<rparr> else i)"

definition access_step :: "u64 \<Rightarrow> userInfo \<Rightarrow> database \<Rightarrow> database" where
  "access_step now i d =
     (if last_access i + timeout i < now
      then updateTime \<lparr>ut_mac = user_mac i, ut_ip = ui_ip i, ut_UTC = now\<rparr> d else d)"

lemma gateway_frame_simps [simp]:
  "gateway_ok (g\<lparr>inDev := d\<rparr>) = gateway_ok g" "gateway_ok (g\<lparr>outDev := d\<rparr>) = gateway_ok g"
  "registered (g\<lparr>inDev := d\<rparr>) = registered g" "registered (g\<lparr>outDev := d\<rparr>) = registered g"
  "requested (g\<lparr>inDev := d\<rparr>) = requested g" "requested (g\<lparr>outDev := d\<rparr>) = requested g"
  "users_static (g\<lparr>inDev := d\<rparr>) = users_static g" "users_static (g\<lparr>outDev := d\<rparr>) = users_static g"
  "users_static (g\<lparr>heap := hp\<rparr>) = users_static g"
  by (simp_all add: gateway_ok_def registered_def requested_def users_static_def)

lemma heap_ok_write:
  assumes ok: "heap_ok users q hp" and i: "um_find hp p = Some i" and "ui_ip j = ui_ip i"
  shows "heap_ok users q (um_insert p j (um_erase p hp))"
proof -
  have hp: "um_insert p j (um_erase p hp) = (p, j) # um_erase p hp" by (rule um_insert_absent) simp
  have "p \<in> set (map fst hp)" using i um_find_key [of p hp] by simp
  then have keys: "set (map fst ((p, j) # um_erase p hp)) = set (map fst hp)"
    using um_erase_keys [of p hp] by auto
  have "um_ok (um_insert p j (um_erase p hp))"
    using ok by (simp add: heap_ok_def um.invar_insert um.invar_erase)
  then show ?thesis
    unfolding hp using ok i assms(3) keys by (auto simp: heap_ok_def list_all_iff)
qed

lemma touch_user_ok:
  assumes ok: "gateway_ok g" and p: "um_find (userMap g) k = Some p" and i: "registered g k = Some i"
  shows "\<exists>hp. touch_user now (Some p) g d = Inr (g\<lparr>heap := hp\<rparr>, access_step now i d) \<and>
    gateway_ok (g\<lparr>heap := hp\<rparr>) \<and> registered (g\<lparr>heap := hp\<rparr>) = (registered g)(k := Some (accessed now i)) \<and>
    requested (g\<lparr>heap := hp\<rparr>) = requested g"
proof (cases "last_access i + timeout i < now")
  case False
  have "deref (heap g) p = Inr i" using registered_iff(2) [OF ok p] i by simp
  moreover have "(registered g)(k := Some i) = registered g" using i by auto
  ultimately show ?thesis
    using ok False by (intro exI [of _ "heap g"])
      (simp add: touch_user_def access_step_def accessed_def)
next
  case True
  let ?i = "i\<lparr>last_access := now\<rparr>"
  let ?hp = "um_insert p ?i (um_erase p (heap g))"
  have hp: "um_find (heap g) p = Some i" using registered_iff(3) [OF ok p] i by simp
  have heap: "heap_ok (userMap g) (requests (userAddRequest g)) (heap g)"
    using ok by (simp add: gateway_ok_def)
  have "gateway_ok (g\<lparr>heap := ?hp\<rparr>)"
    using ok heap_ok_write [OF heap hp, of ?i] by (simp add: gateway_ok_def)
  moreover have "registered (g\<lparr>heap := ?hp\<rparr>) = (registered g)(k := Some ?i)"
  proof
    fix k'
    show "registered (g\<lparr>heap := ?hp\<rparr>) k' = ((registered g)(k := Some ?i)) k'"
      using p heap_ok_owner(2) [OF heap p, of k']
      by (cases "um_find (userMap g) k'") (auto simp: registered_def user_view_pair)
  qed
  moreover have "requested (g\<lparr>heap := ?hp\<rparr>) = requested g"
    using heap_ok_owner(1) [OF heap p] by (auto simp: requested_def blocks_def)
  moreover have "touch_user now (Some p) g d = Inr (g\<lparr>heap := ?hp\<rparr>, access_step now i d)"
    using True hp by (simp add: touch_user_def deref_ok access_step_def Let_def)
  ultimately show ?thesis using True by (intro exI [of _ ?hp]) (simp add: accessed_def)
qed

section \<open>One frame from the inside\<close>

text \<open>The tables a gateway holds.\<close>

definition statics_of :: "gateway \<Rightarrow> statics" where
  "statics_of g = um_find (staticIPMap g)"

definition out_verdict :: "gateway \<Rightarrow> byte list \<Rightarrow> (byte list \<times> u32 option) option" where
  "out_verdict g f = frame_out (statics_of g) (registered g) f"

definition account :: "u64 \<Rightarrow> users \<Rightarrow> (byte list \<times> u32 option) option \<Rightarrow> database \<Rightarrow> database" where
  "account now us v d =
     (case Option.bind v snd of
        None \<Rightarrow> d
      | Some k \<Rightarrow> (case us k of None \<Rightarrow> d | Some i \<Rightarrow> access_step now i d))"

definition accounted :: "u64 \<Rightarrow> (byte list \<times> u32 option) option \<Rightarrow> users \<Rightarrow> users" where
  "accounted now v us =
     (case Option.bind v snd of None \<Rightarrow> us | Some k \<Rightarrow> us(k := map_option (accessed now) (us k)))"

definition sent_opt :: "device \<Rightarrow> byte list option \<Rightarrow> device" where
  "sent_opt d v = (case v of None \<Rightarrow> d | Some f \<Rightarrow> sent d f)"

definition kept_frame :: "packet \<Rightarrow> byte list option \<Rightarrow> packet" where
  "kept_frame p v = (case v of None \<Rightarrow> p | Some f \<Rightarrow> with_frame p f)"

lemma claim_source_shape:
  assumes "claim_source st us k rw f = Some (f', ko)" and "\<And>mac. length (rw mac f) = length f"
  shows "length f' = length f" and "ko = Some k' \<Longrightarrow> \<exists>i. us k' = Some i"
  using assms by (auto simp: claim_source_def split: option.splits if_splits)

lemma frame_out_shape:
  assumes v: "frame_out st us f = Some (f', ko)" and len: "14 \<le> length f" and arp: "arp_complete f"
  shows "length f' = length f" and "ko = Some k \<Longrightarrow> \<exists>i. us k = Some i"
proof -
  have "length f' = length f \<and> (ko = Some k \<longrightarrow> (\<exists>i. us k = Some i))"
  proof (cases "fr_type f = ETHERTYPE_ARP")
    case True
    then have "arp_valid f" and c: "claim_source st us (s_addr (fr_arp_sip f))
        (\<lambda>mac f. put_mac 6 mac (put_mac 22 mac f)) f = Some (f', ko)"
      using v by (simp_all add: frame_out_def arp_out_def split: if_split_asm)
    then have "42 \<le> length f" using arp True by (simp add: arp_complete_def)
    with claim_source_shape [OF c] show ?thesis by simp
  next
    case False
    then have "claim_source st us (s_addr (fr_sip f)) (put_mac 6) f = Some (f', ko) \<or> f' = f \<and> ko = None"
      using v by (simp add: frame_out_def ip_out_def split: if_split_asm)
    with claim_source_shape [of st us "s_addr (fr_sip f)" "put_mac 6" f f' ko] len show ?thesis
      by auto
  qed
  then show "length f' = length f" "ko = Some k \<Longrightarrow> \<exists>i. us k = Some i" by auto
qed

lemma in_branch_refines:
  assumes ok: "gateway_ok g" "users_static g" and wf: "wf_packet p" and len: "14 \<le> writtenByte p"
    and arp: "arp_complete (frame p)"
  shows "(if fr_type (frame p) = ETHERTYPE_ARP then mapR (Pair d) (in_arp g p)
      else if fr_type (frame p) = ETHERTYPE_IP then in_ip g d p (writtenByte p)
      else Inr (d, Some (p, None))) =
    Inr (dhcp_step (frame p) d, map_option (as_packet g p) (out_verdict g (frame p)))"
proof -
  have "arp_valid (frame p) \<longrightarrow> 42 \<le> writtenByte p" if "fr_type (frame p) = ETHERTYPE_ARP"
    using arp that wf by (auto simp: arp_complete_def wf_packet_def)
  then show ?thesis
    using in_arp_refines [OF ok wf len] in_ip_refines [OF ok wf] wf
    by (auto simp: out_verdict_def statics_of_def frame_out_def dhcp_step_def frame_dhcp_def as_packet_def sizes)
qed

lemma writePacket_kept:
  assumes "wf_packet p" and "14 \<le> writtenByte p" and "int (length f) = writtenByte p"
  shows "writePacket dev (inMemory (with_frame p f)) (getLength (with_frame p f)) = Inr (sent dev f)"
  using writePacket_frame [of "with_frame p f" dev] assms by (simp add: sizes)

lemma in_frame_refines:
  assumes ok: "gateway_ok (gw s)" "users_static (gw s)" and wf: "wf_packet (inPacket s)"
    and len: "14 \<le> writtenByte (inPacket s)" and arp: "arp_complete (frame (inPacket s))"
  defines "f \<equiv> frame (inPacket s)"
  defines "v \<equiv> out_verdict (gw s) f"
  shows "\<exists>hp. in_frame now (writtenByte (inPacket s)) s =
      Inr (s\<lparr>gw := (gw s)\<lparr>heap := hp, outDev := sent_opt (outDev (gw s)) (map_option fst v)\<rparr>,
             db := account now (registered (gw s)) v (dhcp_step f (db s)),
             inPacket := kept_frame (inPacket s) (map_option fst v)\<rparr>) \<and>
    gateway_ok ((gw s)\<lparr>heap := hp\<rparr>) \<and>
    registered ((gw s)\<lparr>heap := hp\<rparr>) = accounted now v (registered (gw s)) \<and>
    requested ((gw s)\<lparr>heap := hp\<rparr>) = requested (gw s)"
proof -
  let ?p = "inPacket s" and ?g = "gw s"
  note branch = in_branch_refines [OF ok wf len arp, of "db s", folded f_def, folded v_def]
  show ?thesis
  proof (cases v)
    case None
    then show ?thesis
      using ok wf branch by (intro exI [of _ "heap ?g"]) (simp add: in_frame_def eth_type f_def
          [symmetric] account_def accounted_def sent_opt_def kept_frame_def)
  next
    case (Some w)
    obtain f' ko where w: "w = (f', ko)" by (cases w)
    have lenf: "14 \<le> length f" using wf len by (simp add: f_def le_nat_iff)
    have v: "frame_out (statics_of ?g) (registered ?g) f = Some (f', ko)"
      using Some w by (simp add: v_def out_verdict_def)
    have len': "int (length f') = writtenByte ?p"
      using frame_out_shape(1) [OF v lenf] arp wf by (simp add: f_def wf_packet_def)
    note wr = writePacket_kept [OF wf len len']
    show ?thesis
    proof (cases ko)
      case None
      then show ?thesis
        using ok wf branch Some w wr by (intro exI [of _ "heap ?g"]) (simp add: in_frame_def eth_type
            f_def [symmetric] account_def accounted_def sent_opt_def kept_frame_def as_packet_def
            touch_user_def)
    next
      case k: (Some k)
      obtain i where i: "registered ?g k = Some i"
        using frame_out_shape(2) [OF v lenf _ k] arp by (auto simp: f_def)
      then obtain p where p: "um_find (userMap ?g) k = Some p"
        using registered_iff(1) [OF ok(1), of k] by auto
      from touch_user_ok [OF ok(1) p i, of now "dhcp_step f (db s)"] obtain hp where
        "touch_user now (Some p) ?g (dhcp_step f (db s)) = Inr (?g\<lparr>heap := hp\<rparr>, access_step now i (dhcp_step f (db s)))"
        "gateway_ok (?g\<lparr>heap := hp\<rparr>)" "registered (?g\<lparr>heap := hp\<rparr>) = (registered ?g)(k := Some (accessed now i))"
        "requested (?g\<lparr>heap := hp\<rparr>) = requested ?g" by blast
      then show ?thesis
        using wf branch Some w wr k p i by (intro exI [of _ hp]) (simp add: in_frame_def eth_type
            f_def [symmetric] account_def accounted_def sent_opt_def kept_frame_def as_packet_def)
    qed
  qed
qed

section \<open>One frame from the outside\<close>

definition forgotten :: "u32 option \<Rightarrow> gateway \<Rightarrow> gateway" where
  "forgotten ko g =
     (case ko of
        None \<Rightarrow> g
      | Some k \<Rightarrow> g\<lparr>heap := um_erase (the (um_find (userMap g) k)) (heap g), userMap := um_erase k (userMap g)\<rparr>)"

lemma forget_user_ok:
  assumes ok: "gateway_ok g" and p: "um_find (userMap g) k = Some p"
  shows "forget_user k p g = Inr (forgotten (Some k) g)"
  using registered_iff(4) [OF ok p] p by (simp add: forget_user_def free_block_ok forgotten_def)

lemma forgotten_ok:
  assumes ok: "gateway_ok g" and k: "\<And>k. ko = Some k \<Longrightarrow> registered g k \<noteq> None"
  shows "gateway_ok (forgotten ko g)"
    and "registered (forgotten ko g) = (\<lambda>k. if ko = Some k then None else registered g k)"
    and "requested (forgotten ko g) = requested g" and "statics_of (forgotten ko g) = statics_of g"
    and "inDev (forgotten ko g) = inDev g" and "outDev (forgotten ko g) = outDev g"
    and "users_static g \<Longrightarrow> users_static (forgotten ko g)"
proof -
  show "statics_of (forgotten ko g) = statics_of g" "inDev (forgotten ko g) = inDev g"
    "outDev (forgotten ko g) = outDev g" "users_static g \<Longrightarrow> users_static (forgotten ko g)"
    by (auto simp: forgotten_def statics_of_def users_static_def list_all_iff set_um_erase split: option.splits)
  have "gateway_ok (forgotten ko g) \<and>
    registered (forgotten ko g) = (\<lambda>k. if ko = Some k then None else registered g k) \<and>
    requested (forgotten ko g) = requested g"
  proof (cases ko)
    case (Some k)
    then obtain p where p: "um_find (userMap g) k = Some p"
      using k [OF Some] registered_iff(1) [OF ok, of k] by auto
    have heap: "heap_ok (userMap g) (requests (userAddRequest g)) (heap g)"
      using ok by (simp add: gateway_ok_def)
    show ?thesis
      using ok Some p heap_ok_drop [OF heap p] user_view_drop [OF heap p] heap_ok_owner(1) [OF heap p]
      by (auto simp: forgotten_def gateway_ok_def registered_def requested_def blocks_erase)
  qed (simp add: forgotten_def ok)
  then show "gateway_ok (forgotten ko g)"
    "registered (forgotten ko g) = (\<lambda>k. if ko = Some k then None else registered g k)"
    "requested (forgotten ko g) = requested g" by auto
qed

lemma user_cases:
  assumes ok: "gateway_ok g"
  obtains (none) "um_find (userMap g) k = None" "registered g k = None"
  | (user) p i where "um_find (userMap g) k = Some p" "registered g k = Some i" "deref (heap g) p = Inr i"
      "forget_user k p g = Inr (forgotten (Some k) g)"
proof (cases "um_find (userMap g) k")
  case None
  then show ?thesis using none registered_iff(1) [OF ok] by simp
next
  case (Some p)
  then show ?thesis
    using user [of p] registered_iff(2,4) [OF ok Some] registered_iff(1) [OF ok, of k] forget_user_ok [OF ok Some]
    by auto
qed

lemma out_arp_refines:
  assumes ok: "gateway_ok g" and wf: "wf_packet p" and ty: "fr_type (frame p) = ETHERTYPE_ARP"
    and arp: "arp_valid (frame p) \<longrightarrow> 42 \<le> writtenByte p"
  shows "out_arp g p = Inr (forgotten (stale (statics_of g) (registered g) (frame p)) g,
    map_option (with_frame p) (arp_in (statics_of g) (registered g) (frame p)))"
proof (cases "arp_valid (frame p)")
  case False
  then show ?thesis
    using wf ty by (simp add: out_arp_def arp_hdr_field arp_wanted_valid arp_in_def stale_def
        forgotten_def)
next
  case True
  then have 42: "42 \<le> writtenByte p" using arp by simp
  have nat42: "42 \<le> nat (writtenByte p)" using 42 by simp
  note spec = arp_in_def stale_def statics_of_def
  let ?k = "s_addr (fr_arp_dip (frame p))"
  show ?thesis
    by (rule user_cases [OF ok, of ?k]; cases "um_find (staticIPMap g) ?k";
        cases "um_find (staticIPMap g) (s_addr (fr_arp_sip (frame p)))")
      (use True wf 42 nat42 ty in \<open>auto simp: out_arp_def arp_hdr_field arp_wanted_valid spec arp_fields
        eth_fields arp_set eth_set forgotten_def [of None] ETHER_BROADCAST_def\<close>)
qed

lemma stray_dhcp_field:
  assumes wf: "wf_packet p" and rd: "ip_readable (frame p)"
  shows "stray_dhcp p (14 + int (fr_hlen (frame p))) (fr_proto (frame p)) (fr_sip (frame p)) (fr_dip (frame p)) =
    Inr (s_addr (fr_sip (frame p)) = 0 \<and> s_addr (fr_dip (frame p)) = 0xFFFFFFFF \<and>
      (udp_ports (frame p) 68 67 \<or> udp_ports (frame p) 67 68))"
proof -
  have "IPv4_NONE = a \<longleftrightarrow> s_addr a = 0" "IPv4_BROADCAST = a \<longleftrightarrow> s_addr a = 0xFFFFFFFF" for a
    by (cases a; auto simp: IPv4_NONE_def IPv4_BROADCAST_def)+
  then show ?thesis
    using ip_head [OF wf rd] by (auto simp: stray_dhcp_def udp_ports_def)
qed

lemma ip_fields_put_dst:
  assumes "34 \<le> length f"
  shows "fr_hlen (put_mac 0 mac f) = fr_hlen f" and "fr_proto (put_mac 0 mac f) = fr_proto f"
    and "fr_sip (put_mac 0 mac f) = fr_sip f" and "fr_dip (put_mac 0 mac f) = fr_dip f"
    and "ip_readable (put_mac 0 mac f) = ip_readable f"
    and "ip_readable f \<Longrightarrow> udp_ports (put_mac 0 mac f) a b = udp_ports f a b"
proof -
  have nth: "put_mac 0 mac f ! k = f ! k" if "6 \<le> k" "k < length f" for k
    using that assms by (simp add: put_mac_def nth_overwrite)
  show h: "fr_hlen (put_mac 0 mac f) = fr_hlen f" and p: "fr_proto (put_mac 0 mac f) = fr_proto f"
    using assms nth by (simp_all add: fr_hlen_def fr_proto_def)
  show "fr_sip (put_mac 0 mac f) = fr_sip f" "fr_dip (put_mac 0 mac f) = fr_dip f"
    "ip_readable (put_mac 0 mac f) = ip_readable f"
    using assms h by (simp_all add: fr_sip_def fr_dip_def segment_put_mac ip_readable_def)
  show "udp_ports (put_mac 0 mac f) a b = udp_ports f a b" if "ip_readable f"
    using that assms h p by (simp add: udp_ports_def fr_sport_def fr_dport_def segment_put_mac ip_readable_def
        Let_def)
qed

lemma out_ip_tail:
  assumes wf: "wf_packet p" and rd: "ip_readable (frame p)" and no: "\<not> udp_ports (frame p) 67 68"
    and q: "q = p \<or> q = with_frame p (put_mac 0 mac (frame p))"
  shows "bindR (IP_getProtocol q 14) (\<lambda>proto. bindR (IP_getNextOffset q 14) (\<lambda>next.
      bindR (stray_dhcp q next proto (fr_sip (frame p)) (fr_dip (frame p))) (\<lambda>stray.
      Inr (g, if stray then None else Some q)))) =
    Inr (g, if s_addr (fr_sip (frame p)) = 0 \<and> s_addr (fr_dip (frame p)) = 0xFFFFFFFF \<and>
      udp_ports (frame p) 68 67 then None else Some q)"
proof -
  let ?f = "frame p"
  have len: "48 \<le> length ?f" using ip_head(2) [OF wf rd] wf by (simp add: le_nat_iff)
  have "int (length (put_mac 0 mac ?f)) = writtenByte p"
    using wf len by (simp add: wf_packet_def)
  then have same: "frame q = ?f \<or> frame q = put_mac 0 mac ?f" "wf_packet q"
    using q wf by auto
  then have f: "fr_proto (frame q) = fr_proto ?f" "fr_sip (frame q) = fr_sip ?f" "fr_dip (frame q) = fr_dip ?f"
    "ip_readable (frame q)" "udp_ports (frame q) a b = udp_ports ?f a b" for a b
    using len rd by (auto simp: ip_fields_put_dst)
  show ?thesis
    using ip_head(5) [OF same(2) f(4)] ip_next_field [OF same(2)] stray_dhcp_field [OF same(2) f(4)] no
    by (simp add: f)
qed

lemma out_ip_refines:
  assumes ok: "gateway_ok g" and wf: "wf_packet p" and ty: "fr_type (frame p) = ETHERTYPE_IP"
  shows "out_ip g p (writtenByte p) = Inr (forgotten (stale (statics_of g) (registered g) (frame p)) g,
    map_option (with_frame p) (ip_in (statics_of g) (registered g) (frame p)))"
proof (cases "ip_readable (frame p)")
  case False
  then show ?thesis
    using wf ty ip_unreadable [OF wf False]
    by (simp add: out_ip_def ip_next_field ip_in_def stale_def forgotten_def sizes)
next
  case rd: True
  note head = ip_head [OF wf rd]
  have ty': "fr_type (frame p) \<noteq> ETHERTYPE_ARP" using ty by (simp add: sizes)
  have first: "(if fr_proto (frame p) = 17 then
        let udp = 14 + int (fr_hlen (frame p)) in
        bindR (UDP_getSource p udp) (\<lambda>sport. bindR (UDP_getDestination p udp) (\<lambda>dport.
        Inr (sport = 67 \<and> dport = 68)))
      else Inr False) = Inr (udp_ports (frame p) 67 68)"
    using head by (auto simp: udp_ports_def sizes)
  have long: "\<not> writtenByte p < 28 + int (fr_hlen (frame p))" using head(1) by simp
  note eval = out_ip_def ip_next_field [OF wf] head(3-) first long Let_def sizes
  show ?thesis
  proof (cases "udp_ports (frame p) 67 68 \<or> um_find (staticIPMap g) (s_addr (fr_sip (frame p))) \<noteq> None")
    case True
    then have "out_ip g p (writtenByte p) = Inr (g, None)"
      by (cases "udp_ports (frame p) 67 68") (auto simp: eval split del: if_split)
    then show ?thesis
      using True ty' ty by (auto simp: ip_in_def stale_def forgotten_def statics_of_def)
  next
    case False
    then have no: "\<not> udp_ports (frame p) 67 68"
      and src: "um_find (staticIPMap g) (s_addr (fr_sip (frame p))) = None" by auto
    note tail = out_ip_tail [OF wf rd no disjI2 [OF refl]]
    let ?k = "s_addr (fr_dip (frame p))"
    show ?thesis
      by (rule user_cases [OF ok, of ?k]; cases "um_find (staticIPMap g) ?k"; insert head(2);
          simp split del: if_split add: eval no src eth_fields [OF wf] eth_set [OF wf] tail
            stray_dhcp_field [OF wf rd])
        (use rd ty' ty in \<open>auto simp: ip_in_def stale_def statics_of_def forgotten_def [of None] no src tail wf
          eth_set [OF wf]\<close>)
  qed
qed

text \<open>The verdict and the dropped entry for a frame from the outside.\<close>

definition in_verdict :: "gateway \<Rightarrow> byte list \<Rightarrow> byte list option" where
  "in_verdict g f = frame_in (statics_of g) (registered g) f"

definition stale_of :: "gateway \<Rightarrow> byte list \<Rightarrow> u32 option" where
  "stale_of g f = stale (statics_of g) (registered g) f"

lemma stale_registered: "stale_of g f = Some k \<Longrightarrow> registered g k \<noteq> None \<and> statics_of g k = None"
  by (auto simp: stale_of_def stale_def split: if_split_asm)

lemma frame_in_length:
  assumes v: "frame_in st us f = Some f'" and arp: "arp_complete f"
  shows "length f' = length f"
proof (cases "fr_type f = ETHERTYPE_ARP")
  case True
  then have "42 \<le> length f" using v arp
    by (simp add: frame_in_def arp_in_def arp_complete_def split: if_split_asm)
  with True v show ?thesis
    by (auto simp: frame_in_def arp_in_def split: if_split_asm option.splits)
next
  case False
  show ?thesis
  proof (cases "fr_type f = ETHERTYPE_IP")
    case True
    then have "48 \<le> length f" using v False fr_hlen_range(1) [of f]
      by (simp add: frame_in_def ip_in_def ip_readable_def split: if_split_asm)
    with True False v show ?thesis
      by (auto simp: frame_in_def ip_in_def split: if_split_asm option.splits)
  qed (use False v in \<open>simp add: frame_in_def\<close>)
qed

lemma out_branch_refines:
  assumes ok: "gateway_ok g" and wf: "wf_packet p" and arp: "arp_complete (frame p)"
  shows "(if fr_type (frame p) = ETHERTYPE_ARP then out_arp g p
      else if fr_type (frame p) = ETHERTYPE_IP then out_ip g p (writtenByte p)
      else Inr (g, Some p)) =
    Inr (forgotten (stale_of g (frame p)) g, map_option (with_frame p) (in_verdict g (frame p)))"
proof -
  have "arp_valid (frame p) \<longrightarrow> 42 \<le> writtenByte p" if "fr_type (frame p) = ETHERTYPE_ARP"
    using arp that wf by (auto simp: arp_complete_def wf_packet_def)
  then show ?thesis
    using out_arp_refines [OF ok wf] out_ip_refines [OF ok wf] wf
    by (auto simp: in_verdict_def stale_of_def frame_in_def stale_def forgotten_def)
qed

text \<open>The address given to \<^verbatim>\<open>sendto\<close> is read from the buffer, so for frames shorter than an address
  it ends in whatever the buffer held.\<close>

definition sent_from :: "device \<Rightarrow> packet \<Rightarrow> byte list option \<Rightarrow> device" where
  "sent_from d p v = (case v of
     None \<Rightarrow> d
   | Some f \<Rightarrow> d\<lparr>tx := tx d @ [\<lparr>sc_ifindex = devID d, sc_addr = take 6 (inMemory (with_frame p f)), sc_data = f\<rparr>]\<rparr>)"

lemma out_frame_refines:
  assumes ok: "gateway_ok (gw s)" and wf: "wf_packet (outPacket s)" and cap: "6 \<le> capacity (outPacket s)"
    and arp: "arp_complete (frame (outPacket s))"
  defines "f \<equiv> frame (outPacket s)"
  defines "v \<equiv> in_verdict (gw s) f"
  shows "out_frame (writtenByte (outPacket s)) s =
    Inr (s\<lparr>gw := (forgotten (stale_of (gw s) f) (gw s))\<lparr>inDev := sent_from (inDev (gw s)) (outPacket s) v\<rparr>,
           outPacket := kept_frame (outPacket s) v\<rparr>)"
proof -
  let ?p = "outPacket s"
  note branch = out_branch_refines [OF ok wf arp, folded f_def, folded v_def]
  have dev: "inDev (forgotten ko g) = inDev g" for ko g
    by (simp add: forgotten_def split: option.splits)
  show ?thesis
  proof (cases v)
    case None
    then show ?thesis
      using wf branch dev [of "stale_of (gw s) f" "gw s"]
      by (simp add: out_frame_def eth_type f_def [symmetric] sent_from_def kept_frame_def)
  next
    case (Some f')
    have len: "int (length f') = writtenByte ?p"
      using frame_in_length [of "statics_of (gw s)" "registered (gw s)" f f'] Some arp wf
      by (simp add: v_def in_verdict_def f_def wf_packet_def)
    let ?q = "with_frame ?p f'"
    have q: "wf_packet ?q" "frame ?q = f'" using wf len by simp_all
    have "writePacket dev (inMemory ?q) (getLength ?q) = Inr (sent_from dev ?p (Some f'))" for dev
      using q cap by (simp add: writePacket_def copy_out_def wf_packet_def sizes getLength_def sent_from_def
          segment_def frame_def)
    then show ?thesis
      using wf branch Some dev by (simp add: out_frame_def eth_type f_def [symmetric] kept_frame_def Let_def)
  qed
qed

end
