(* ===== verification/Gateway_Policy.thy ===== *)
theory Gateway_Policy
  imports Gateway_Filter
begin

text \<open>
  What the two directions of the forwarding loop guarantee, one frame at a time: the refinement of
  the filter specification, and its consequences for spoofed addresses, frames between inside
  hosts, DHCP messages, delivery to users, accounting, and the situations in which the code faults.
\<close>

section \<open>Tools\<close>

text \<open>A server that has a frame from the inside, or from the outside, in its buffer.\<close>

definition in_ready :: "server \<Rightarrow> bool" where
  "in_ready s \<longleftrightarrow> gateway_ok (gw s) \<and> users_static (gw s) \<and> wf_packet (inPacket s) \<and>
     14 \<le> writtenByte (inPacket s) \<and> arp_complete (frame (inPacket s))"

definition out_ready :: "server \<Rightarrow> bool" where
  "out_ready s \<longleftrightarrow> gateway_ok (gw s) \<and> wf_packet (outPacket s) \<and> 6 \<le> capacity (outPacket s) \<and>
     arp_complete (frame (outPacket s))"

abbreviation in_result :: "u64 \<Rightarrow> server \<Rightarrow> server result" where
  "in_result now s \<equiv> in_frame now (writtenByte (inPacket s)) s"

abbreviation out_result :: "server \<Rightarrow> server result" where
  "out_result s \<equiv> out_frame (writtenByte (outPacket s)) s"

lemma in_frame_result:
  assumes "in_ready s" and "in_result now s = Inr s'"
  shows "outDev (gw s') = sent_opt (outDev (gw s)) (map_option fst (out_verdict (gw s) (frame (inPacket s))))"
    and "inDev (gw s') = inDev (gw s)"
    and "db s' = account now (registered (gw s)) (out_verdict (gw s) (frame (inPacket s)))
      (dhcp_step (frame (inPacket s)) (db s))"
    and "gateway_ok (gw s')" and "statics_of (gw s') = statics_of (gw s)"
    and "registered (gw s') = accounted now (out_verdict (gw s) (frame (inPacket s))) (registered (gw s))"
    and "requested (gw s') = requested (gw s)" and "users_static (gw s')"
proof -
  from assms in_frame_refines [of s now] obtain hp where
    "s' = s\<lparr>gw := (gw s)\<lparr>heap := hp, outDev := sent_opt (outDev (gw s))
        (map_option fst (out_verdict (gw s) (frame (inPacket s))))\<rparr>,
      db := account now (registered (gw s)) (out_verdict (gw s) (frame (inPacket s)))
        (dhcp_step (frame (inPacket s)) (db s)),
      inPacket := kept_frame (inPacket s) (map_option fst (out_verdict (gw s) (frame (inPacket s))))\<rparr>"
    and *: "gateway_ok ((gw s)\<lparr>heap := hp\<rparr>)"
      "registered ((gw s)\<lparr>heap := hp\<rparr>) = accounted now (out_verdict (gw s) (frame (inPacket s))) (registered (gw s))"
      "requested ((gw s)\<lparr>heap := hp\<rparr>) = requested (gw s)"
    by (auto simp: in_ready_def)
  then show "outDev (gw s') = sent_opt (outDev (gw s)) (map_option fst (out_verdict (gw s) (frame (inPacket s))))"
    "inDev (gw s') = inDev (gw s)"
    "db s' = account now (registered (gw s)) (out_verdict (gw s) (frame (inPacket s)))
      (dhcp_step (frame (inPacket s)) (db s))"
    "gateway_ok (gw s')" "statics_of (gw s') = statics_of (gw s)"
    "registered (gw s') = accounted now (out_verdict (gw s) (frame (inPacket s))) (registered (gw s))"
    "requested (gw s') = requested (gw s)" "users_static (gw s')"
    using assms(1) by (simp_all add: statics_of_def in_ready_def)
qed

lemma out_frame_result:
  assumes "out_ready s" and "out_result s = Inr s'"
  shows "inDev (gw s') = sent_from (inDev (gw s)) (outPacket s) (in_verdict (gw s) (frame (outPacket s)))"
    and "outDev (gw s') = outDev (gw s)" and "db s' = db s"
    and "gateway_ok (gw s')" and "statics_of (gw s') = statics_of (gw s)"
    and "registered (gw s') =
      (\<lambda>k. if stale_of (gw s) (frame (outPacket s)) = Some k then None else registered (gw s) k)"
    and "requested (gw s') = requested (gw s)" and "users_static (gw s) \<Longrightarrow> users_static (gw s')"
proof -
  let ?ko = "stale_of (gw s) (frame (outPacket s))"
  have "gateway_ok (gw s)" using assms(1) by (simp add: out_ready_def)
  note f = forgotten_ok [OF this, of ?ko]
  have k: "?ko = Some k \<Longrightarrow> registered (gw s) k \<noteq> None" for k using stale_registered by blast
  have s': "s' = s\<lparr>gw := (forgotten ?ko (gw s))\<lparr>inDev :=
        sent_from (inDev (gw s)) (outPacket s) (in_verdict (gw s) (frame (outPacket s)))\<rparr>,
      outPacket := kept_frame (outPacket s) (in_verdict (gw s) (frame (outPacket s)))\<rparr>"
    using assms out_frame_refines [of s] by (auto simp: out_ready_def)
  show "inDev (gw s') = sent_from (inDev (gw s)) (outPacket s) (in_verdict (gw s) (frame (outPacket s)))"
    "db s' = db s" by (simp_all add: s')
  show "outDev (gw s') = outDev (gw s)" "gateway_ok (gw s')" "statics_of (gw s') = statics_of (gw s)"
    "registered (gw s') = (\<lambda>k. if ?ko = Some k then None else registered (gw s) k)"
    "requested (gw s') = requested (gw s)" "users_static (gw s) \<Longrightarrow> users_static (gw s')"
    using f [OF k] by (simp_all add: s' statics_of_def)
qed

lemma sent_opt_tx: "tx (sent_opt d v) = tx d \<longleftrightarrow> v = None"
  by (simp add: sent_opt_def sent_def split: option.splits)

lemma sent_opt_some: "tx (sent_opt d (Some f)) = tx d @ [\<lparr>sc_ifindex = devID d, sc_addr = take 6 f, sc_data = f\<rparr>]"
  by (simp add: sent_opt_def sent_def)

lemma sent_from_tx: "tx (sent_from d p v) = tx d \<longleftrightarrow> v = None"
  by (simp add: sent_from_def split: option.splits)

text \<open>The source address a frame claims, where the filter looks at one.\<close>

definition claimed_source :: "byte list \<Rightarrow> u32 option" where
  "claimed_source f =
     (if fr_type f = ETHERTYPE_ARP then Some (s_addr (fr_arp_sip f))
      else if fr_type f = ETHERTYPE_IP then Some (s_addr (fr_sip f)) else None)"

definition claimed_target :: "byte list \<Rightarrow> u32 option" where
  "claimed_target f =
     (if fr_type f = ETHERTYPE_ARP then Some (s_addr (fr_arp_dip f))
      else if fr_type f = ETHERTYPE_IP then Some (s_addr (fr_dip f)) else None)"

lemma frame_out_spoof:
  assumes "frame_out st us f = Some (f', ko)" and "claimed_source f = Some k" and "st k \<noteq> None"
    and "14 \<le> length f" and "arp_complete f"
  shows "\<exists>i mac. us k = Some i \<and> user_mac i = fr_src f \<and> st k = Some mac \<and> fr_src f' = mac \<and> ko = Some k"
proof (cases "fr_type f = ETHERTYPE_ARP")
  case True
  then have "arp_valid f" and c: "claim_source st us k (\<lambda>mac f. put_mac 6 mac (put_mac 22 mac f)) f = Some (f', ko)"
    using assms(1,2) by (auto simp: frame_out_def arp_out_def claimed_source_def split: if_split_asm)
  then have "42 \<le> length f" using assms(5) True by (simp add: arp_complete_def)
  then show ?thesis
    using c assms(3) by (auto simp: claim_source_def put_mac_eth split: option.splits if_split_asm)
next
  case False
  then have c: "claim_source st us k (put_mac 6) f = Some (f', ko)"
    using assms(1,2) by (auto simp: frame_out_def ip_out_def claimed_source_def split: if_split_asm)
  then show ?thesis
    using assms(3,4) by (auto simp: claim_source_def put_mac_eth split: option.splits if_split_asm)
qed

lemma frame_out_isolated:
  "claimed_target f = Some k \<Longrightarrow> st k \<noteq> None \<Longrightarrow> frame_out st us f = None"
  by (auto simp: frame_out_def arp_out_def ip_out_def claimed_target_def split: if_split_asm)

lemma frame_in_impostor:
  "claimed_source f = Some k \<Longrightarrow> st k \<noteq> None \<Longrightarrow> frame_in st us f = None"
  by (auto simp: frame_in_def arp_in_def ip_in_def claimed_source_def split: if_split_asm)

section \<open>Sample frames\<close>

definition sample_db :: database where
  "sample_db = \<lparr>createDHCPRequestQueue = eq_empty, updateTimeQueue = eq_empty, gatewayIP = \<lparr>s_addr = 1\<rparr>,
     subnetMask = \<lparr>s_addr = 0xFFFFFF\<rparr>, dnsList = [], db_timeout = 10, static_ip = [], user = [],
     db_termEvent = 0, db_gotExit = False\<rparr>"

text \<open>An IPv4 frame of 48 bytes between two addresses whose last bytes are given.\<close>

definition ip_sample :: "byte \<Rightarrow> byte \<Rightarrow> byte \<Rightarrow> byte \<Rightarrow> byte list" where
  "ip_sample ether_dst ether_src src dst =
     [0, 0, 0, 0, 0, ether_dst, 0, 0, 0, 0, 0, ether_src, 8, 0, 0x45, 0, 0, 34, 0, 0, 0, 0, 64, 6, 0, 0,
      src, 0, 0, 0, dst, 0, 0, 0] @ replicate 14 0"

definition sample_server :: "byte list \<Rightarrow> server" where
  "sample_server f =
     (let p = \<lparr>writtenByte = int (length f), capacity = int (length f), inMemory = f\<rparr>
      in \<lparr>gw = sample_gateway, db = sample_db, inPacket = p, outPacket = p\<rparr>)"

lemma sample_server_fields [simp]:
  "gw (sample_server f) = sample_gateway" "db (sample_server f) = sample_db"
  "frame (inPacket (sample_server f)) = f" "frame (outPacket (sample_server f)) = f"
  "wf_packet (inPacket (sample_server f))" "wf_packet (outPacket (sample_server f))"
  "writtenByte (inPacket (sample_server f)) = int (length f)"
  "writtenByte (outPacket (sample_server f)) = int (length f)"
  "capacity (outPacket (sample_server f)) = int (length f)"
  by (simp_all add: sample_server_def frame_def wf_packet_def Let_def)

lemma sample_tables:
  "statics_of sample_gateway k = (if k = 5 then Some (EtherAddr 0 0 0 0 0 9) else None)"
  "registered sample_gateway k = (if k = 5 then Some info_a else None)"
  "users_static sample_gateway"
  by (simp_all add: statics_of_def registered_def user_view_pair sample_gateway_def users_static_def)

lemma sample_devices: "tx (inDev sample_gateway) = []" "tx (outDev sample_gateway) = []"
  by (simp_all add: sample_gateway_def Gateway_new_def sample_dev_def)

lemma ip_sample_fields:
  "length (ip_sample ed es s d) = 48" "fr_type (ip_sample ed es s d) = ETHERTYPE_IP"
  "fr_sip (ip_sample ed es s d) = in_addr_of [s, 0, 0, 0]" "fr_dip (ip_sample ed es s d) = in_addr_of [d, 0, 0, 0]"
  "fr_src (ip_sample ed es s d) = EtherAddr 0 0 0 0 0 es" "fr_dst (ip_sample ed es s d) = EtherAddr 0 0 0 0 0 ed"
  "ip_readable (ip_sample ed es s d)" "\<not> udp_ports (ip_sample ed es s d) a b"
  by (simp_all add: ip_sample_def fr_type_def fr_sip_def fr_dip_def fr_src_def fr_dst_def ip_readable_def
      fr_hlen_def ip_hlen_def udp_ports_def fr_proto_def segment_def ntohs_def sizes)

lemma addr_sample: "s_addr (in_addr_of [b, 0, 0, 0]) = ucast b"
  by (simp add: in_addr_of_def)

lemma sample_in_ready:
  "in_ready (sample_server (ip_sample ed es s d))" "out_ready (sample_server (ip_sample ed es s d))"
  using ip_sample_fields(1,2) [of ed es s d]
  by (simp_all add: in_ready_def out_ready_def sample_gateway_ok sample_tables arp_complete_def sizes)

section \<open>Properties\<close>

text \<open>
  C1: The inside half of the forwarding loop implements the filter specification. For every frame
  in the buffer it returns without a fault, sends on the outside device exactly the bytes the
  specification gives for the frame and the current tables, or nothing, sends nothing back inside,
  hands to the database exactly the specified DHCP and access-time requests, and keeps the
  invariant and the static addresses.
\<close>

theorem in_frame_implements_filter:
  assumes "in_ready s"
  shows "\<exists>s'. in_result now s = Inr s' \<and>
    outDev (gw s') = sent_opt (outDev (gw s))
      (map_option fst (frame_out (statics_of (gw s)) (registered (gw s)) (frame (inPacket s)))) \<and>
    inDev (gw s') = inDev (gw s) \<and>
    db s' = account now (registered (gw s))
      (frame_out (statics_of (gw s)) (registered (gw s)) (frame (inPacket s)))
      (case frame_dhcp (frame (inPacket s)) of None \<Rightarrow> db s | Some r \<Rightarrow> createDHCP r (db s)) \<and>
    gateway_ok (gw s') \<and> statics_of (gw s') = statics_of (gw s)"
proof -
  obtain s' where s': "in_result now s = Inr s'"
    using in_frame_refines [of s now] assms by (auto simp: in_ready_def)
  show ?thesis
    using in_frame_result [OF assms s'] s' by (intro exI [of _ s']) (simp add: out_verdict_def dhcp_step_def)
qed

theorem in_frame_implements_filter_witness:
  "\<exists>s'. in_result 100 (sample_server (ip_sample 7 1 5 6)) = Inr s' \<and>
    map sc_data (tx (outDev (gw s'))) = [ip_sample 7 9 5 6] \<and>
    requests (updateTimeQueue (db s')) =
      [\<lparr>ut_mac = EtherAddr 0 0 0 0 0 1, ut_ip = \<lparr>s_addr = 5\<rparr>, ut_UTC = 100\<rparr>]"
proof -
  let ?f = "ip_sample 7 1 5 6"
  have put: "put_mac 6 (EtherAddr 0 0 0 0 0 9) ?f = ip_sample 7 9 5 6"
    by (simp add: put_mac_def ip_sample_def overwrite_def)
  have mac: "user_mac info_a = EtherAddr 0 0 0 0 0 1" by (simp add: info_a_def)
  have v: "frame_out (statics_of sample_gateway) (registered sample_gateway) ?f = Some (ip_sample 7 9 5 6, Some 5)"
    by (simp add: frame_out_def ip_out_def claim_source_def sample_tables ip_sample_fields addr_sample mac put sizes)
  have d: "frame_dhcp ?f = None" by (simp add: frame_dhcp_def ip_sample_fields)
  from in_frame_implements_filter [OF sample_in_ready(1), of 100 7 1 5 6] obtain s' where
    "in_result 100 (sample_server ?f) = Inr s'"
    "outDev (gw s') = sent (outDev sample_gateway) (ip_sample 7 9 5 6)"
    "db s' = access_step 100 info_a sample_db"
    by (auto simp: v d account_def sample_tables sent_opt_def)
  then show ?thesis
    by (auto simp: sent_def sample_devices access_step_def info_a_def updateTime_def sample_db_def eq.contents_push
        eq.contents_empty)
qed

text \<open>
  C2: The outside half of the forwarding loop implements the filter specification: for every frame
  in the buffer it returns without a fault, sends on the inside device exactly the bytes the
  specification gives, or nothing, sends nothing back outside, gives the database nothing to do,
  keeps the invariant and the static addresses, and drops the table entry of the frame's
  target exactly when that address is no longer a static one.
\<close>

theorem out_frame_implements_filter:
  assumes "out_ready s"
  shows "\<exists>s'. out_result s = Inr s' \<and>
    inDev (gw s') = sent_from (inDev (gw s)) (outPacket s)
      (frame_in (statics_of (gw s)) (registered (gw s)) (frame (outPacket s))) \<and>
    outDev (gw s') = outDev (gw s) \<and> db s' = db s \<and> gateway_ok (gw s') \<and>
    statics_of (gw s') = statics_of (gw s) \<and>
    (\<forall>k. registered (gw s') k =
      (if stale (statics_of (gw s)) (registered (gw s)) (frame (outPacket s)) = Some k then None
       else registered (gw s) k))"
proof -
  obtain s' where s': "out_result s = Inr s'"
    using out_frame_refines [of s] assms by (auto simp: out_ready_def)
  show ?thesis
    using out_frame_result [OF assms s'] s'
    by (intro exI [of _ s']) (simp add: in_verdict_def stale_of_def)
qed

theorem out_frame_implements_filter_witness:
  "\<exists>s'. out_result (sample_server (ip_sample 9 7 6 5)) = Inr s' \<and>
    map sc_data (tx (inDev (gw s'))) = [ip_sample 1 7 6 5]"
proof -
  let ?f = "ip_sample 9 7 6 5"
  have put: "put_mac 0 (EtherAddr 0 0 0 0 0 1) ?f = ip_sample 1 7 6 5"
    by (simp add: put_mac_def ip_sample_def overwrite_def)
  have mac: "user_mac info_a = EtherAddr 0 0 0 0 0 1" by (simp add: info_a_def)
  have v: "frame_in (statics_of sample_gateway) (registered sample_gateway) ?f = Some (ip_sample 1 7 6 5)"
    by (simp add: frame_in_def ip_in_def sample_tables ip_sample_fields addr_sample mac put sizes)
  from out_frame_implements_filter [OF sample_in_ready(2), of 9 7 6 5] show ?thesis
    by (auto simp: v sent_from_def sample_devices)
qed

text \<open>
  C4: No address of ours can be spoofed towards the outside. If a frame that claims a static
  address as its source makes anything go out, then a user is registered for that address, the
  frame came from the hardware address that user registered with, and the one frame that goes
  out carries the static hardware address as its source.
\<close>

theorem spoofed_source_blocked:
  assumes "in_ready s" and "in_result now s = Inr s'"
    and "claimed_source (frame (inPacket s)) = Some k" and "statics_of (gw s) k \<noteq> None"
    and "tx (outDev (gw s')) \<noteq> tx (outDev (gw s))"
  shows "\<exists>i mac f'. registered (gw s) k = Some i \<and> user_mac i = fr_src (frame (inPacket s)) \<and>
    statics_of (gw s) k = Some mac \<and> fr_src f' = mac \<and>
    map sc_data (tx (outDev (gw s'))) = map sc_data (tx (outDev (gw s))) @ [f']"
proof -
  let ?f = "frame (inPacket s)"
  have out: "outDev (gw s') = sent_opt (outDev (gw s)) (map_option fst (out_verdict (gw s) ?f))"
    by (rule in_frame_result [OF assms(1,2)])
  then obtain f' ko where v: "frame_out (statics_of (gw s)) (registered (gw s)) ?f = Some (f', ko)"
    using assms(5) by (auto simp: sent_opt_tx out_verdict_def)
  have len: "14 \<le> length ?f" "arp_complete ?f"
    using assms(1) by (simp_all add: in_ready_def le_nat_iff)
  from frame_out_spoof [OF v assms(3,4) len] out v show ?thesis
    by (auto simp: out_verdict_def sent_opt_some)
qed

theorem spoofed_source_blocked_witness:
  "\<exists>s' f'. in_result 100 (sample_server (ip_sample 7 1 5 6)) = Inr s' \<and>
     map sc_data (tx (outDev (gw s'))) = [f'] \<and> fr_src f' = EtherAddr 0 0 0 0 0 9"
proof -
  let ?s = "sample_server (ip_sample 7 1 5 6)"
  obtain s' where s': "in_result 100 ?s = Inr s'"
    using in_frame_refines [of ?s 100] sample_in_ready(1) [of 7 1 5 6] unfolding in_ready_def by blast
  have "out_verdict (gw ?s) (frame (inPacket ?s)) \<noteq> None"
    by (simp add: out_verdict_def frame_out_def ip_out_def claim_source_def sample_tables ip_sample_fields
        addr_sample info_a_def sizes)
  then have sent: "tx (outDev (gw s')) \<noteq> tx (outDev (gw ?s))"
    using in_frame_result(1) [OF sample_in_ready(1) s'] by (simp add: sent_opt_tx)
  have k: "claimed_source (frame (inPacket ?s)) = Some 5" "statics_of (gw ?s) 5 \<noteq> None"
    by (simp_all add: claimed_source_def ip_sample_fields addr_sample sample_tables sizes)
  from spoofed_source_blocked [OF sample_in_ready(1) s' k sent] s' show ?thesis
    by (auto simp: sample_tables sample_devices)
qed

text \<open>
  A sender that uses a static address without being its registered user is silenced: the
  frame is dropped, nothing is sent on either device, nobody's access time moves.
\<close>

theorem unauthorised_frame_dropped:
  assumes "in_ready s" and "claimed_source (frame (inPacket s)) = Some k" and "statics_of (gw s) k \<noteq> None"
    and "\<forall>i. registered (gw s) k = Some i \<longrightarrow> user_mac i \<noteq> fr_src (frame (inPacket s))"
  shows "\<exists>s'. in_result now s = Inr s' \<and> outDev (gw s') = outDev (gw s) \<and> inDev (gw s') = inDev (gw s) \<and>
    registered (gw s') = registered (gw s) \<and> updateTimeQueue (db s') = updateTimeQueue (db s)"
proof -
  let ?f = "frame (inPacket s)"
  obtain s' where s': "in_result now s = Inr s'"
    using in_frame_refines [of s now] assms(1) by (auto simp: in_ready_def)
  have len: "14 \<le> length ?f" "arp_complete ?f"
    using assms(1) by (simp_all add: in_ready_def le_nat_iff)
  have "out_verdict (gw s) ?f = None"
  proof (rule ccontr)
    assume "out_verdict (gw s) ?f \<noteq> None"
    then obtain f' ko where "frame_out (statics_of (gw s)) (registered (gw s)) ?f = Some (f', ko)"
      by (auto simp: out_verdict_def)
    from frame_out_spoof [OF this assms(2,3) len] assms(4) show False by auto
  qed
  with in_frame_result [OF assms(1) s'] s' show ?thesis
    by (auto simp: sent_opt_def accounted_def account_def dhcp_step_def createDHCP_def split: option.splits)
qed

theorem unauthorised_frame_dropped_witness:
  "\<exists>s'. in_result 100 (sample_server (ip_sample 7 2 5 6)) = Inr s' \<and> tx (outDev (gw s')) = []"
proof -
  let ?s = "sample_server (ip_sample 7 2 5 6)"
  have k: "claimed_source (frame (inPacket ?s)) = Some 5" "statics_of (gw ?s) 5 \<noteq> None"
    "\<forall>i. registered (gw ?s) 5 = Some i \<longrightarrow> user_mac i \<noteq> fr_src (frame (inPacket ?s))"
    by (simp_all add: claimed_source_def ip_sample_fields addr_sample sample_tables info_a_def sizes)
  from unauthorised_frame_dropped [OF sample_in_ready(1) k, of 100] show ?thesis
    by (auto simp: sample_devices)
qed

text \<open>
  C24: Frames between inside hosts stay inside: a frame whose target is one of the static
  addresses never goes out, whoever sends it.
\<close>

theorem inside_traffic_stays_inside:
  assumes "in_ready s" and "claimed_target (frame (inPacket s)) = Some k" and "statics_of (gw s) k \<noteq> None"
  shows "\<exists>s'. in_result now s = Inr s' \<and> outDev (gw s') = outDev (gw s) \<and> inDev (gw s') = inDev (gw s)"
proof -
  obtain s' where s': "in_result now s = Inr s'"
    using in_frame_refines [of s now] assms(1) by (auto simp: in_ready_def)
  have "out_verdict (gw s) (frame (inPacket s)) = None"
    unfolding out_verdict_def using assms(2,3) by (rule frame_out_isolated)
  with in_frame_result(1,2) [OF assms(1) s'] s' show ?thesis by (simp add: sent_opt_def)
qed

theorem inside_traffic_stays_inside_witness:
  "\<exists>s'. in_result 100 (sample_server (ip_sample 7 2 8 5)) = Inr s' \<and> tx (outDev (gw s')) = []"
proof -
  let ?s = "sample_server (ip_sample 7 2 8 5)"
  have k: "claimed_target (frame (inPacket ?s)) = Some 5" "statics_of (gw ?s) 5 \<noteq> None"
    by (simp_all add: claimed_target_def ip_sample_fields addr_sample sample_tables sizes)
  from inside_traffic_stays_inside [OF sample_in_ready(1) k, of 100] show ?thesis
    by (auto simp: sample_devices)
qed

text \<open>
  Nobody outside can impersonate an inside host: a frame from the outside whose source is a
  static address is dropped, and it changes neither device nor the registered users.
\<close>

theorem outside_impostor_dropped:
  assumes "out_ready s" and "claimed_source (frame (outPacket s)) = Some k" and "statics_of (gw s) k \<noteq> None"
  shows "\<exists>s'. out_result s = Inr s' \<and> inDev (gw s') = inDev (gw s) \<and> outDev (gw s') = outDev (gw s) \<and>
    registered (gw s') = registered (gw s)"
proof -
  obtain s' where s': "out_result s = Inr s'"
    using out_frame_refines [of s] assms(1) by (auto simp: out_ready_def)
  have "in_verdict (gw s) (frame (outPacket s)) = None"
    unfolding in_verdict_def using assms(2,3) by (rule frame_in_impostor)
  moreover have "stale_of (gw s) (frame (outPacket s)) = None"
    using assms(2,3) by (auto simp: stale_of_def stale_def claimed_source_def split: if_split_asm)
  ultimately show ?thesis
    using out_frame_result(1,2,6) [OF assms(1) s'] s' by (simp add: sent_from_def)
qed

theorem outside_impostor_dropped_witness:
  "\<exists>s'. out_result (sample_server (ip_sample 9 7 5 6)) = Inr s' \<and> tx (inDev (gw s')) = []"
proof -
  let ?s = "sample_server (ip_sample 9 7 5 6)"
  have k: "claimed_source (frame (outPacket ?s)) = Some 5" "statics_of (gw ?s) 5 \<noteq> None"
    by (simp_all add: claimed_source_def ip_sample_fields addr_sample sample_tables sizes)
  from outside_impostor_dropped [OF sample_in_ready(2) k] show ?thesis by (auto simp: sample_devices)
qed

text \<open>
  C23: Delivery to a user: an IP frame from the outside to a static address is passed on exactly
  when it is long enough, is not a DHCP message, does not come from an address of ours, is
  addressed to the static hardware address and a user is registered; what is passed on is the
  frame with its first six bytes replaced by the user's hardware address and every other byte as
  it was.
\<close>

theorem inbound_delivered_to_user:
  assumes "out_ready s" and "fr_type (frame (outPacket s)) = ETHERTYPE_IP"
    and "statics_of (gw s) (s_addr (fr_dip (frame (outPacket s)))) = Some mac"
    and "s_addr (fr_sip (frame (outPacket s))) \<noteq> 0"
    and "out_result s = Inr s'"
  shows "(if ip_readable (frame (outPacket s)) \<and> \<not> udp_ports (frame (outPacket s)) 67 68 \<and>
        statics_of (gw s) (s_addr (fr_sip (frame (outPacket s)))) = None \<and>
        fr_dst (frame (outPacket s)) = mac \<and>
        registered (gw s) (s_addr (fr_dip (frame (outPacket s)))) \<noteq> None
      then map sc_data (tx (inDev (gw s'))) = map sc_data (tx (inDev (gw s))) @
        [octets (user_mac (the (registered (gw s) (s_addr (fr_dip (frame (outPacket s))))))) @
          drop 6 (frame (outPacket s))]
      else inDev (gw s') = inDev (gw s))"
proof -
  let ?f = "frame (outPacket s)"
  have ty: "fr_type ?f \<noteq> ETHERTYPE_ARP" using assms(2) by (simp add: sizes)
  have "put_mac 0 m ?f = octets m @ drop 6 ?f" for m by (simp add: put_mac_def overwrite_0)
  then show ?thesis
    using out_frame_result(1) [OF assms(1,5)] assms(2-4) ty
    by (auto simp: in_verdict_def frame_in_def ip_in_def sent_from_def split: option.splits)
qed

theorem inbound_delivered_to_user_witness:
  "\<exists>s'. out_result (sample_server (ip_sample 9 7 6 5)) = Inr s' \<and>
    map sc_data (tx (inDev (gw s'))) = [[0, 0, 0, 0, 0, 1] @ drop 6 (ip_sample 9 7 6 5)]"
proof -
  let ?s = "sample_server (ip_sample 9 7 6 5)"
  obtain s' where s': "out_result ?s = Inr s'"
    using out_frame_refines [of ?s] sample_in_ready(2) [of 9 7 6 5] unfolding out_ready_def by blast
  have k: "fr_type (frame (outPacket ?s)) = ETHERTYPE_IP"
    "statics_of (gw ?s) (s_addr (fr_dip (frame (outPacket ?s)))) = Some (EtherAddr 0 0 0 0 0 9)"
    "s_addr (fr_sip (frame (outPacket ?s))) \<noteq> 0"
    by (simp_all add: ip_sample_fields addr_sample sample_tables)
  from inbound_delivered_to_user [OF sample_in_ready(2) k s'] s' show ?thesis
    by (simp add: ip_sample_fields addr_sample sample_tables sample_devices info_a_def)
qed

text \<open>
  C10: A client's DHCP message never leaves the building. A UDP frame from port 68 to port 67 is
  taken off the wire: nothing is sent on either device, and the database gets one request, with the
  client's hardware address, its transaction number, the MTU 1500 and the kind of the message, if it
  is a boot request of type DISCOVER or REQUEST whose client address is the sender of the frame, and
  no request otherwise.
\<close>

theorem client_dhcp_intercepted:
  assumes "in_ready s" and "fr_type (frame (inPacket s)) = ETHERTYPE_IP" and "ip_readable (frame (inPacket s))"
    and "udp_ports (frame (inPacket s)) 68 67"
  shows "\<exists>s'. in_result now s = Inr s' \<and> outDev (gw s') = outDev (gw s) \<and> inDev (gw s') = inDev (gw s) \<and>
    registered (gw s') = registered (gw s) \<and> updateTimeQueue (db s') = updateTimeQueue (db s) \<and>
    (let m = fr_dhcp (frame (inPacket s)) in
     requests (createDHCPRequestQueue (db s')) = requests (createDHCPRequestQueue (db s)) @
      (if m ! 0 = 1 \<and> 242 < length m \<and> (m ! 242 = 1 \<or> m ! 242 = 3) \<and>
          ether_of (segment 28 34 m) = fr_src (frame (inPacket s))
       then [\<lparr>dr_mac = ether_of (segment 28 34 m), dr_transID = le32 (segment 4 8 m),
              dr_mtu = 1500, dr_isDiscover = (m ! 242 = 1)\<rparr>]
       else []))"
proof -
  obtain s' where s': "in_result now s = Inr s'"
    using in_frame_refines [of s now] assms(1) by (auto simp: in_ready_def)
  have "out_verdict (gw s) (frame (inPacket s)) = None"
    using assms(2-4) by (simp add: out_verdict_def frame_out_def ip_out_def sizes)
  moreover have "frame_dhcp (frame (inPacket s)) = dhcp_of (frame (inPacket s))"
    using assms(2-4) by (simp add: frame_dhcp_def)
  ultimately show ?thesis
    using in_frame_result(1,2,3,6) [OF assms(1) s'] s'
    by (intro exI [of _ s']) (simp add: sent_opt_def accounted_def account_def dhcp_step_def dhcp_of_def
        createDHCP_def eq.contents_push Let_def)
qed

text \<open>A DISCOVER of the client with hardware address 00:00:00:00:00:01.\<close>

definition dhcp_sample :: "byte list" where
  "dhcp_sample =
     [255, 255, 255, 255, 255, 255, 0, 0, 0, 0, 0, 1, 8, 0, 0x45, 0, 1, 15, 0, 0, 0, 0, 64, 17, 0, 0] @
     [0, 0, 0, 0, 255, 255, 255, 255, 0, 68, 0, 67, 0, 251, 0, 0] @
     [1, 1, 6, 0, 0xDE, 0xAD, 0xBE, 0xEF] @ replicate 20 0 @ [0, 0, 0, 0, 0, 1] @ replicate 206 0 @
     [53, 1, 1]"

theorem client_dhcp_intercepted_witness:
  "\<exists>s'. in_result 100 (sample_server dhcp_sample) = Inr s' \<and> tx (outDev (gw s')) = [] \<and>
    requests (createDHCPRequestQueue (db s')) =
      [\<lparr>dr_mac = EtherAddr 0 0 0 0 0 1, dr_transID = 0xEFBEADDE, dr_mtu = 1500, dr_isDiscover = True\<rparr>]"
proof -
  have h: "fr_hlen dhcp_sample = 20" by (simp add: dhcp_sample_def fr_hlen_def ip_hlen_def)
  have ty: "fr_type dhcp_sample = ETHERTYPE_IP" "ip_readable dhcp_sample" "udp_ports dhcp_sample 68 67"
    and src: "fr_src dhcp_sample = EtherAddr 0 0 0 0 0 1"
    unfolding ip_readable_def udp_ports_def fr_sport_def fr_dport_def h
    by (simp_all add: dhcp_sample_def fr_type_def fr_proto_def fr_src_def segment_def ntohs_def sizes Let_def)
  have m: "fr_dhcp dhcp_sample =
      [1, 1, 6, 0, 0xDE, 0xAD, 0xBE, 0xEF] @ replicate 20 0 @ [0, 0, 0, 0, 0, 1] @ replicate 206 0 @ [53, 1, 1]"
    unfolding fr_dhcp_def h by (simp add: dhcp_sample_def)
  have ready: "in_ready (sample_server dhcp_sample)"
    using ty by (simp add: in_ready_def sample_gateway_ok sample_tables arp_complete_def sizes)
      (simp add: dhcp_sample_def)
  from client_dhcp_intercepted [OF ready, of 100] ty show ?thesis
    by (auto simp: m src sample_devices sample_db_def eq.contents_empty segment_def nth_append Let_def)
qed

text \<open>
  DHCP servers outside cannot reach our clients: a UDP frame from the outside from port 67 to
  port 68 is dropped whatever its addresses are, and changes nothing.
\<close>

theorem outer_dhcp_dropped:
  assumes "out_ready s" and "fr_type (frame (outPacket s)) = ETHERTYPE_IP"
    and "udp_ports (frame (outPacket s)) 67 68"
  shows "\<exists>s'. out_result s = Inr s' \<and> inDev (gw s') = inDev (gw s) \<and> outDev (gw s') = outDev (gw s) \<and>
    registered (gw s') = registered (gw s) \<and> db s' = db s"
proof -
  obtain s' where s': "out_result s = Inr s'"
    using out_frame_refines [of s] assms(1) by (auto simp: out_ready_def)
  have "in_verdict (gw s) (frame (outPacket s)) = None" "stale_of (gw s) (frame (outPacket s)) = None"
    using assms(2,3) by (simp_all add: in_verdict_def frame_in_def ip_in_def stale_of_def stale_def sizes)
  then show ?thesis
    using out_frame_result(1,2,3,6) [OF assms(1) s'] s' by (simp add: sent_from_def)
qed

definition rogue_sample :: "byte list" where
  "rogue_sample = [0, 0, 0, 0, 0, 9, 0, 0, 0, 0, 0, 7, 8, 0, 0x45, 0, 1, 15, 0, 0, 0, 0, 64, 17, 0, 0] @
     [6, 0, 0, 0, 5, 0, 0, 0] @ [0, 67, 0, 68, 0, 251, 0, 0] @ replicate 10 0"

theorem outer_dhcp_dropped_witness:
  "\<exists>s'. out_result (sample_server rogue_sample) = Inr s' \<and> tx (inDev (gw s')) = []"
proof -
  have h: "fr_hlen rogue_sample = 20" by (simp add: rogue_sample_def fr_hlen_def ip_hlen_def)
  have ty: "fr_type rogue_sample = ETHERTYPE_IP" "udp_ports rogue_sample 67 68"
    unfolding udp_ports_def fr_sport_def fr_dport_def h
    by (simp_all add: rogue_sample_def fr_type_def fr_proto_def segment_def ntohs_def sizes Let_def)
  have ready: "out_ready (sample_server rogue_sample)"
    using ty by (simp add: out_ready_def sample_gateway_ok arp_complete_def sizes) (simp add: rogue_sample_def)
  from outer_dhcp_dropped [OF ready] ty show ?thesis by (auto simp: sample_devices)
qed

text \<open>
  C27: Access times. When a frame of a registered user goes out, the user's access time becomes the
  current time, and one update request with the user's addresses and that time is queued for the
  database, exactly if the last access plus the user's timeout lies before the current time in
  unsigned 64-bit arithmetic; otherwise neither changes. No other user is affected.
\<close>

theorem access_time_recorded:
  assumes "in_ready s" and "registered (gw s) k = Some i"
    and "frame_out (statics_of (gw s)) (registered (gw s)) (frame (inPacket s)) = Some (f', Some k)"
  shows "\<exists>s'. in_result now s = Inr s' \<and>
    (if last_access i + timeout i < now then
       registered (gw s') = (registered (gw s))(k := Some (i\<lparr>last_access := now\<rparr>)) \<and>
       requests (updateTimeQueue (db s')) = requests (updateTimeQueue (db s)) @
         [\<lparr>ut_mac = user_mac i, ut_ip = ui_ip i, ut_UTC = now\<rparr>]
     else registered (gw s') = registered (gw s) \<and> updateTimeQueue (db s') = updateTimeQueue (db s)) \<and>
    createDHCPRequestQueue (db s') = createDHCPRequestQueue (db s)"
proof -
  let ?f = "frame (inPacket s)"
  obtain s' where s': "in_result now s = Inr s'"
    using in_frame_refines [of s now] assms(1) by (auto simp: in_ready_def)
  have "frame_dhcp ?f = None"
    using assms(3) by (auto simp: frame_dhcp_def frame_out_def ip_out_def sizes split: if_split_asm)
  moreover have "(registered (gw s))(k := Some i) = registered (gw s)" using assms(2) by auto
  ultimately show ?thesis
    using in_frame_result(3,6) [OF assms(1) s'] s' assms(2,3)
    by (intro exI [of _ s']) (simp add: out_verdict_def account_def accounted_def accessed_def access_step_def
        dhcp_step_def updateTime_def eq.contents_push)
qed

theorem access_time_recorded_witness:
  "\<exists>s'. in_result 100 (sample_server (ip_sample 7 1 5 6)) = Inr s' \<and>
    registered (gw s') 5 = Some (info_a\<lparr>last_access := 100\<rparr>)"
proof -
  let ?s = "sample_server (ip_sample 7 1 5 6)"
  have i: "registered (gw ?s) 5 = Some info_a" by (simp add: sample_tables)
  have v: "frame_out (statics_of (gw ?s)) (registered (gw ?s)) (frame (inPacket ?s)) =
      Some (put_mac 6 (EtherAddr 0 0 0 0 0 9) (ip_sample 7 1 5 6), Some 5)"
    by (simp add: frame_out_def ip_out_def claim_source_def sample_tables ip_sample_fields addr_sample
        info_a_def sizes)
  have "last_access info_a + timeout info_a < 100" by (simp add: info_a_def)
  with access_time_recorded [OF sample_in_ready(1) i v, of 100] show ?thesis by auto
qed

text \<open>
  C36: A user whose address has been taken out of the static table makes the forwarding thread
  dereference the end iterator of that table with its next frame: the user is found and its
  hardware address matches, so the code reads the static entry without checking that there is one.
\<close>

theorem missing_static_entry_faults:
  assumes "gateway_ok (gw s)" and "wf_packet (inPacket s)" and "fr_type (frame (inPacket s)) = ETHERTYPE_IP"
    and "ip_readable (frame (inPacket s))" and "\<not> udp_ports (frame (inPacket s)) 68 67"
    and "statics_of (gw s) (s_addr (fr_dip (frame (inPacket s)))) = None"
    and "registered (gw s) (s_addr (fr_sip (frame (inPacket s)))) = Some i"
    and "user_mac i = fr_src (frame (inPacket s))"
    and "statics_of (gw s) (s_addr (fr_sip (frame (inPacket s)))) = None"
  shows "in_result now s = Inl EndIterator"
proof -
  let ?p = "inPacket s"
  note head = ip_head [OF assms(2,4)]
  obtain p where p: "um_find (userMap (gw s)) (s_addr (fr_sip (frame ?p))) = Some p"
    using registered_iff(1) [OF assms(1), of "s_addr (fr_sip (frame ?p))"] assms(7) by auto
  have d: "deref (heap (gw s)) p = Inr i" using registered_iff(2) [OF assms(1) p] assms(7) by simp
  have ports: "\<not> (fr_proto (frame ?p) = 17 \<and> fr_sport (frame ?p) = 68 \<and> fr_dport (frame ?p) = 67)"
    using assms(5) by (simp add: udp_ports_def sizes)
  have "in_ip (gw s) (db s) ?p (writtenByte ?p) = Inl EndIterator"
    using head ports p d assms(2,6,8,9)
    by (auto simp: in_ip_def ip_next_field statics_of_def eth_fields iter_second_def sizes Let_def)
  then show ?thesis using assms(2,3) by (simp add: in_frame_def eth_type sizes)
qed

definition orphan_server :: "byte list \<Rightarrow> server" where
  "orphan_server f = (sample_server f)\<lparr>gw := sample_gateway\<lparr>staticIPMap := []\<rparr>\<rparr>"

theorem missing_static_entry_faults_witness:
  "in_result 100 (orphan_server (ip_sample 7 1 5 6)) = Inl EndIterator"
proof -
  let ?s = "orphan_server (ip_sample 7 1 5 6)"
  have s: "inPacket ?s = inPacket (sample_server (ip_sample 7 1 5 6))"
    "gw ?s = sample_gateway\<lparr>staticIPMap := []\<rparr>" by (simp_all add: orphan_server_def)
  have ok: "gateway_ok (sample_gateway\<lparr>staticIPMap := []\<rparr>)"
    using sample_gateway_ok by (simp add: gateway_ok_def um_ok_def)
  have tables: "statics_of (sample_gateway\<lparr>staticIPMap := []\<rparr>) k = None"
    "registered (sample_gateway\<lparr>staticIPMap := []\<rparr>) = registered sample_gateway" for k
    by (simp_all add: statics_of_def registered_def)
  show ?thesis
    by (rule missing_static_entry_faults [where i = info_a])
      (simp_all add: s ok tables sample_tables ip_sample_fields addr_sample info_a_def)
qed

text \<open>
  C37: ARP frames are not checked for their length: a frame with a valid ARP header that ends before
  the target address (22 to 41 bytes) makes both directions decide on an address variable that was
  never written.
\<close>

theorem short_arp_uninitialised:
  assumes "wf_packet p" and "arp_valid (frame p)" and "writtenByte p < 42"
  shows "in_arp g p = Inl Uninitialised \<and> out_arp g p = Inl Uninitialised"
  using assms by (simp add: in_arp_def out_arp_def arp_hdr_field arp_wanted_valid arp_dst_ip.get_outside)

theorem short_arp_uninitialised_witness:
  "in_arp sample_gateway (inPacket (sample_server (replicate 12 0 @ [8, 6, 0, 1, 8, 0, 6, 4, 0, 1]))) = Inl Uninitialised"
proof -
  let ?f = "replicate 12 0 @ [8, 6, 0, 1, 8, 0, 6, 4, 0, 1] :: byte list"
  have "arp_valid ?f" by (simp add: arp_valid_def segment_def)
  with short_arp_uninitialised [of "inPacket (sample_server ?f)" sample_gateway] show ?thesis by simp
qed

text \<open>
  C40: The length check of both directions counts the Ethernet header twice, no more and no less. Take an IPv4 frame that
  is not UDP, between addresses that are neither static nor of users, which nothing but the length check can stop. In
  both directions it passes unchanged when it has at least 14 bytes more than its Ethernet and its IP header
  together, and is dropped when it has fewer: also when both headers, and a payload of up to 13 bytes,
  are complete.
\<close>

theorem short_ip_dropped:
  assumes "wf_packet p" and "fr_proto (frame p) \<noteq> IPPROTO_UDP"
    and "um_find (staticIPMap g) (s_addr (fr_sip (frame p))) = None" and "um_find (userMap g) (s_addr (fr_sip (frame p))) = None"
    and "um_find (staticIPMap g) (s_addr (fr_dip (frame p))) = None" and "um_find (userMap g) (s_addr (fr_dip (frame p))) = None"
  shows "in_ip g d p (writtenByte p) =
      Inr (d, if writtenByte p < 14 + (14 + int (fr_hlen (frame p))) then None else Some (p, None)) \<and>
    out_ip g p (writtenByte p) =
      Inr (g, if writtenByte p < 14 + (14 + int (fr_hlen (frame p))) then None else Some p)"
proof (cases "writtenByte p < 14 + (14 + int (fr_hlen (frame p)))")
  case True
  then show ?thesis using assms(1) by (simp add: in_ip_def out_ip_def ip_next_field sizes)
next
  case False
  then have "34 \<le> writtenByte p" using fr_hlen_range(1) [of "frame p"] by linarith
  note f = ip_fields [OF assms(1) this]
  show ?thesis
    using False assms by (simp add: in_ip_def out_ip_def ip_next_field f stray_dhcp_def Let_def sizes)
qed

theorem short_ip_dropped_witness:
  "out_ip sample_gateway (outPacket (sample_server (take 47 (ip_sample 9 7 6 8)))) 47 = Inr (sample_gateway, None) \<and>
   out_ip sample_gateway (outPacket (sample_server (ip_sample 9 7 6 8))) 48 =
     Inr (sample_gateway, Some (outPacket (sample_server (ip_sample 9 7 6 8))))"
proof -
  let ?f = "take 47 (ip_sample 9 7 6 8)" and ?g = "ip_sample 9 7 6 8"
  have f: "length ?f = 47" "fr_hlen ?f = 20" "fr_proto ?f = 6" "fr_sip ?f = in_addr_of [6, 0, 0, 0]" "fr_dip ?f = in_addr_of [8, 0, 0, 0]"
    "length ?g = 48" "fr_hlen ?g = 20" "fr_proto ?g = 6" "fr_sip ?g = in_addr_of [6, 0, 0, 0]" "fr_dip ?g = in_addr_of [8, 0, 0, 0]"
    by (simp_all add: ip_sample_def fr_hlen_def ip_hlen_def fr_proto_def fr_sip_def fr_dip_def segment_def)
  have "um_find (staticIPMap sample_gateway) k = None" "um_find (userMap sample_gateway) k = None" if "k \<noteq> 5" for k
    using that sample_tables(1,2) [of k] registered_iff(1) [OF sample_gateway_ok, of k] by (simp_all add: statics_of_def)
  then show ?thesis
    using short_ip_dropped [of "outPacket (sample_server ?f)" sample_gateway] short_ip_dropped [of "outPacket (sample_server ?g)" sample_gateway]
    by (simp add: f addr_sample sizes)
qed

end
