(* ===== verification/Gateway_Loop.thy ===== *)
theory Gateway_Loop
  imports Gateway_Policy
begin

text \<open>
  Safety of the whole forwarding loop: an invariant of the server that every turn keeps, whatever
  frames arrive and in whatever order the event library runs the ready handlers, and under which no
  step faults; and that a request to terminate ends the loop.
\<close>

section \<open>The invariant\<close>

definition buffer_ok :: "packet \<Rightarrow> bool" where
  "buffer_ok p \<longleftrightarrow> capacity p = MY_PACKET_LEN \<and> int (length (inMemory p)) = MY_PACKET_LEN"

text \<open>What may arrive on a device: answers that fit the buffer, and no ARP frame cut short.\<close>

definition wire_ok :: "device \<Rightarrow> bool" where
  "wire_ok d \<longleftrightarrow> list_all (\<lambda>r. recv_fits 1514 r \<and> arp_complete (ra_data r)) (rx d)"

text \<open>An address is known when it is static or about to be.\<close>

definition known :: "gateway \<Rightarrow> u32 \<Rightarrow> bool" where
  "known g k \<longleftrightarrow> statics_of g k \<noteq> None \<or> k \<in> (\<lambda>d. s_addr (fst d)) ` set (requests (staticIPAddRequest g))"

definition fed_ok :: "gateway \<Rightarrow> bool" where
  "fed_ok g \<longleftrightarrow> gateway_ok g \<and> (\<forall>k. registered g k \<noteq> None \<longrightarrow> known g k) \<and>
     (\<forall>i\<in>set (requested g). known g (s_addr (ui_ip i))) \<and> requests (staticIPDelRequest g) = []"

definition server_ok :: "server \<Rightarrow> bool" where
  "server_ok s \<longleftrightarrow> fed_ok (gw s) \<and> users_static (gw s) \<and> channels_ok (db s) \<and>
     buffer_ok (inPacket s) \<and> buffer_ok (outPacket s) \<and> wire_ok (inDev (gw s)) \<and> wire_ok (outDev (gw s))"

lemma users_static_registered:
  assumes "gateway_ok g"
  shows "users_static g \<longleftrightarrow> (\<forall>k. registered g k \<noteq> None \<longrightarrow> statics_of g k \<noteq> None)"
proof
  assume "users_static g"
  then show "\<forall>k. registered g k \<noteq> None \<longrightarrow> statics_of g k \<noteq> None"
    using users_static_iff [OF assms] by (auto simp: statics_of_def)
next
  assume r: "\<forall>k. registered g k \<noteq> None \<longrightarrow> statics_of g k \<noteq> None"
  have "um_ok (userMap g)" using assms by (simp add: gateway_ok_def heap_ok_def)
  then have "registered g k \<noteq> None" if "(k, p) \<in> set (userMap g)" for k p
    using that registered_iff(1) [OF assms, of k] um_find_entry [of "userMap g" k p] by auto
  with r show "users_static g" by (fastforce simp: users_static_def list_all_iff statics_of_def)
qed

section \<open>Handlers\<close>

definition event_step :: "handler \<Rightarrow> gateway \<Rightarrow> gateway result" where
  "event_step h g = (if ready g h then run_handler h g else Inr g)"

lemma event_base_loop_steps: "event_base_loop order g = foldR event_step order g"
  by (simp add: event_base_loop_def event_step_def [abs_def])

lemma fold_put_user:
  "fold put_user us m k = None \<longleftrightarrow> m k = None \<and> (\<forall>i\<in>set us. s_addr (ui_ip i) \<noteq> k)"
  by (induction us arbitrary: m) (auto simp: put_user_def split: if_split_asm)

lemma fold_put_static:
  "fold (\<lambda>(ip, mac) f. f(s_addr ip := Some mac)) ds m k = None \<longleftrightarrow>
   m k = None \<and> k \<notin> (\<lambda>d. s_addr (fst d)) ` set ds"
  by (induction ds arbitrary: m) (auto split: if_split_asm)

text \<open>What a handler leaves alone.\<close>

definition same_wires :: "gateway \<Rightarrow> gateway \<Rightarrow> bool" where
  "same_wires g g' \<longleftrightarrow> rx (inDev g') = rx (inDev g) \<and> rx (outDev g') = rx (outDev g) \<and>
     handle_of (inDev g') = handle_of (inDev g) \<and> handle_of (outDev g') = handle_of (outDev g)"

lemma add_static_step:
  assumes "fed_ok g"
  shows "\<exists>g'. add_static_ip g = Inr g' \<and> fed_ok g' \<and> requests (staticIPAddRequest g') = [] \<and> requested g' = requested g \<and>
    same_wires g g' \<and> termEvent g' = termEvent g \<and> gotExit g' = gotExit g \<and> (\<forall>k. known g' k = known g k)"
proof -
  have ok: "gateway_ok g" using assms by (simp add: fed_ok_def)
  from add_static_ip_ok [OF ok] obtain m where
    m: "add_static_ip g = Inr (g\<lparr>staticIPAddRequest := eq_empty, staticIPMap := m\<rparr>)"
      "gateway_ok (g\<lparr>staticIPAddRequest := eq_empty, staticIPMap := m\<rparr>)"
      "um_find m = fold (\<lambda>(ip, mac) f. f(s_addr ip := Some mac)) (requests (staticIPAddRequest g))
        (um_find (staticIPMap g))" by blast
  let ?g = "g\<lparr>staticIPAddRequest := eq_empty, staticIPMap := m\<rparr>"
  have kn: "known ?g k = known g k" for k
    using fold_put_static [of "requests (staticIPAddRequest g)" "um_find (staticIPMap g)" k]
    by (auto simp: known_def statics_of_def m(3) eq.contents_empty)
  moreover have req: "registered ?g = registered g" "requested ?g = requested g"
    by (simp_all add: registered_def requested_def)
  ultimately have "fed_ok ?g" using assms m(2) by (simp add: fed_ok_def)
  with m(1) kn req show ?thesis by (auto simp: eq.contents_empty same_wires_def)
qed

lemma add_user_step_fed:
  assumes "fed_ok g"
  shows "\<exists>g'. add_user g = Inr g' \<and> fed_ok g' \<and> staticIPAddRequest g' = staticIPAddRequest g \<and>
    same_wires g g' \<and> termEvent g' = termEvent g \<and> gotExit g' = gotExit g \<and> (\<forall>k. known g' k = known g k)"
proof -
  have ok: "gateway_ok g" using assms by (simp add: fed_ok_def)
  from add_user_ok [OF ok] obtain users hp where
    u: "add_user g = Inr (g\<lparr>userAddRequest := eq_empty, userMap := users, heap := hp\<rparr>)"
      "gateway_ok (g\<lparr>userAddRequest := eq_empty, userMap := users, heap := hp\<rparr>)"
      "user_view (users, hp) = fold put_user (requested g) (registered g)" by blast
  let ?g = "g\<lparr>userAddRequest := eq_empty, userMap := users, heap := hp\<rparr>"
  have kn: "known ?g k = known g k" for k by (simp add: known_def statics_of_def)
  moreover have "requested ?g = []" by (simp add: requested_def blocks_def eq.contents_empty)
  moreover have "known g k" if "registered ?g k \<noteq> None" for k
    using that fold_put_user [of "requested g" "registered g" k] assms
    by (auto simp: registered_def u(3) fed_ok_def)
  ultimately have "fed_ok ?g" using assms u(2) by (simp add: fed_ok_def)
  with u(1) kn show ?thesis by (auto simp: same_wires_def)
qed

lemma del_user_step_fed:
  assumes "fed_ok g"
  shows "\<exists>g'. del_user g = Inr g' \<and> fed_ok g' \<and> staticIPAddRequest g' = staticIPAddRequest g \<and> requested g' = requested g \<and>
    same_wires g g' \<and> termEvent g' = termEvent g \<and> gotExit g' = gotExit g \<and> (\<forall>k. known g' k = known g k)"
proof -
  have ok: "gateway_ok g" using assms by (simp add: fed_ok_def)
  from del_user_ok [OF ok] obtain users hp where
    u: "del_user g = Inr (g\<lparr>userDelRequest := eq_empty, userMap := users, heap := hp\<rparr>)"
      "gateway_ok (g\<lparr>userDelRequest := eq_empty, userMap := users, heap := hp\<rparr>)"
      "user_view (users, hp) =
        (\<lambda>k. if k \<in> s_addr ` set (requests (userDelRequest g)) then None else registered g k)"
      "blocks hp (requests (userAddRequest g)) = requested g" by blast
  let ?g = "g\<lparr>userDelRequest := eq_empty, userMap := users, heap := hp\<rparr>"
  have kn: "known ?g k = known g k" for k by (simp add: known_def statics_of_def)
  moreover have req: "requested ?g = requested g" using u(4) by (simp add: requested_def)
  moreover have "registered g k \<noteq> None" if "registered ?g k \<noteq> None" for k
    using that by (auto simp: registered_def u(3) split: if_split_asm)
  ultimately have "fed_ok ?g" using assms u(2) by (simp add: fed_ok_def)
  with u(1) kn req show ?thesis by (auto simp: same_wires_def)
qed

lemma send_step_fed:
  assumes "fed_ok g"
  shows "\<exists>g'. send_packet g = Inr g' \<and> fed_ok g' \<and> staticIPAddRequest g' = staticIPAddRequest g \<and> requested g' = requested g \<and>
    same_wires g g' \<and> termEvent g' = termEvent g \<and> gotExit g' = gotExit g \<and> (\<forall>k. known g' k = known g k)"
proof -
  have ok: "gateway_ok g" using assms by (simp add: fed_ok_def)
  let ?d = "fold (\<lambda>p d. sent d (frame p)) (requests (sendPacketRequestQueue g)) (inDev g)"
  let ?g = "g\<lparr>sendPacketRequestQueue := eq_empty, inDev := ?d\<rparr>"
  have kn: "known ?g k = known g k" "registered ?g = registered g" "requested ?g = requested g" for k
    by (simp_all add: known_def statics_of_def registered_def requested_def)
  then have "fed_ok ?g" using assms send_packet_ok(2) [OF ok] by (simp add: fed_ok_def)
  with send_packet_ok(1) [OF ok] kn(1,3) show ?thesis by (auto simp: same_wires_def sent_all)
qed

lemma term_step_fed: "fed_ok g \<Longrightarrow> fed_ok (terminate_gateway g)"
  using channel_ops_ok(5) [of g]
  by (simp add: fed_ok_def terminate_gateway_def known_def statics_of_def registered_def requested_def)

lemma known_term [simp]: "known (terminate_gateway g) k = known g k"
  by (simp add: known_def statics_of_def terminate_gateway_def)

lemma requested_term [simp]: "requested (terminate_gateway g) = requested g"
  by (simp add: requested_def terminate_gateway_def)

lemma event_step_ok:
  assumes "fed_ok g"
  shows "\<exists>g'. event_step h g = Inr g' \<and> fed_ok g' \<and> same_wires g g' \<and>
    (h = H_add_static \<or> requests (staticIPAddRequest g) = [] \<longrightarrow> requests (staticIPAddRequest g') = []) \<and>
    (gotExit g \<or> h = H_term \<and> termEvent g > 0 \<longrightarrow> gotExit g') \<and> (h \<noteq> H_term \<longrightarrow> termEvent g' = termEvent g) \<and>
    (h \<noteq> H_add_user \<longrightarrow> requested g' = requested g) \<and> (\<forall>k. known g' k = known g k)"
proof (cases "ready g h")
  case False
  have "eq_ok (staticIPAddRequest g)" using assms by (simp add: fed_ok_def gateway_ok_def)
  then show ?thesis
    using False assms by (cases h) (auto simp: event_step_def eq_ok_def same_wires_def)
next
  case True
  have "pending (staticIPDelRequest g) = 0"
    using assms by (simp add: fed_ok_def gateway_ok_def eq_ok_def)
  then show ?thesis
    using True assms add_static_step [OF assms] add_user_step_fed [OF assms] del_user_step_fed [OF assms]
      send_step_fed [OF assms] term_step_fed [OF assms]
      known_term [of g] requested_term [of g]
    by (cases h) (auto simp: event_step_def same_wires_def terminate_gateway_def)
qed

lemma event_steps_ok:
  assumes "fed_ok g"
  shows "\<exists>g'. foldR event_step order g = Inr g' \<and> fed_ok g' \<and> same_wires g g' \<and>
    (H_add_static \<in> set order \<or> requests (staticIPAddRequest g) = [] \<longrightarrow> requests (staticIPAddRequest g') = []) \<and>
    (gotExit g \<or> H_term \<in> set order \<and> termEvent g > 0 \<longrightarrow> gotExit g')"
  using assms
proof (induction order arbitrary: g)
  case (Cons h order)
  from event_step_ok [OF Cons.prems, of h] obtain g1 where
    1: "event_step h g = Inr g1" "fed_ok g1" "same_wires g g1"
      "h = H_add_static \<or> requests (staticIPAddRequest g) = [] \<longrightarrow> requests (staticIPAddRequest g1) = []"
      "gotExit g \<or> h = H_term \<and> termEvent g > 0 \<longrightarrow> gotExit g1" "h \<noteq> H_term \<longrightarrow> termEvent g1 = termEvent g"
    by blast
  from Cons.IH [OF 1(2)] obtain g2 where
    2: "foldR event_step order g1 = Inr g2" "fed_ok g2" "same_wires g1 g2"
      "H_add_static \<in> set order \<or> requests (staticIPAddRequest g1) = [] \<longrightarrow> requests (staticIPAddRequest g2) = []"
      "gotExit g1 \<or> H_term \<in> set order \<and> termEvent g1 > 0 \<longrightarrow> gotExit g2"
    by blast
  have "same_wires g g2" using 1(3) 2(3) by (simp add: same_wires_def)
  moreover have "H_add_static \<in> set (h # order) \<or> requests (staticIPAddRequest g) = [] \<longrightarrow>
      requests (staticIPAddRequest g2) = []" using 1(4) 2(4) by auto
  moreover have "gotExit g \<or> H_term \<in> set (h # order) \<and> termEvent g > 0 \<longrightarrow> gotExit g2"
    using 1(5,6) 2(5) by (cases "h = H_term") auto
  ultimately show ?case using 1(1) 2(1,2) by auto
qed (simp add: same_wires_def)

lemma event_base_loop_ok:
  assumes "fed_ok g" and "H_add_static \<in> set order"
  shows "\<exists>g'. event_base_loop order g = Inr g' \<and> fed_ok g' \<and> users_static g' \<and> same_wires g g' \<and>
    (gotExit g \<or> H_term \<in> set order \<and> termEvent g > 0 \<longrightarrow> gotExit g')"
proof -
  from event_steps_ok [OF assms(1), of order] assms(2) obtain g' where
    g': "event_base_loop order g = Inr g'" "fed_ok g'" "same_wires g g'" "requests (staticIPAddRequest g') = []"
      "gotExit g \<or> H_term \<in> set order \<and> termEvent g > 0 \<longrightarrow> gotExit g'"
    by (auto simp: event_base_loop_steps)
  then have "users_static g'"
    using users_static_registered [of g'] by (auto simp: fed_ok_def known_def)
  with g' show ?thesis by blast
qed

section \<open>Frames\<close>

lemma fed_ok_mono:
  assumes "fed_ok g" and "gateway_ok g'" and "staticIPMap g' = staticIPMap g"
    and "staticIPAddRequest g' = staticIPAddRequest g" and "staticIPDelRequest g' = staticIPDelRequest g"
    and "\<And>k. registered g' k \<noteq> None \<Longrightarrow> registered g k \<noteq> None" and "requested g' = requested g"
  shows "fed_ok g'" and "users_static g \<Longrightarrow> users_static g'"
proof -
  have "known g' k = known g k" "statics_of g' = statics_of g" for k
    using assms by (simp_all add: known_def statics_of_def)
  then show "fed_ok g'" "users_static g \<Longrightarrow> users_static g'"
    using assms users_static_registered [of g] users_static_registered [of g'] by (auto simp: fed_ok_def)
qed

lemma wire_ok_sent [simp]: "wire_ok (sent_opt d v) = wire_ok d" "wire_ok (sent_from d p v) = wire_ok d"
  "wire_ok (sent d f) = wire_ok d"
  by (simp_all add: wire_ok_def sent_opt_def sent_from_def sent_def split: option.splits)

lemma handle_of_sent [simp]: "handle_of (sent_opt d v) = handle_of d" "handle_of (sent_from d p v) = handle_of d"
  by (simp_all add: sent_opt_def sent_from_def split: option.splits)

lemma accounted_dom: "accounted now v us k = None \<longleftrightarrow> us k = None"
  by (auto simp: accounted_def split: option.splits)

lemma channels_in: "channels_ok d \<Longrightarrow> channels_ok (account now us v (dhcp_step f d))"
  by (auto simp: account_def dhcp_step_def access_step_def createDHCP_channels updateTime_channels
      split: option.splits)

lemma buffer_kept: "buffer_ok p \<Longrightarrow> int (length f) \<le> MY_PACKET_LEN \<Longrightarrow> buffer_ok (with_frame p f)"
  by (auto simp: buffer_ok_def with_frame_def)

lemma read_ok:
  assumes "readPacket d (inMemory p) = (n, b, d')" and "wire_ok d" and "buffer_ok p"
  shows "buffer_ok (p\<lparr>inMemory := b\<rparr>)" and "wire_ok d'" and "handle_of d' = handle_of d"
    and "n = -1 \<or> 0 \<le> n \<and> (n \<le> MY_PACKET_LEN \<longrightarrow> arp_complete (take (nat n) b))"
proof -
  obtain rest where loop: "readPacket_loop (devID d) (rx d) (inMemory p) = (n, b, rest)" "d' = d\<lparr>rx := rest\<rparr>"
    using assms(1) by (auto simp: readPacket_def split: prod.splits)
  have len: "length (inMemory p) = 1514" using assms(3) by (simp add: buffer_ok_def sizes)
  then have fits: "\<forall>r\<in>set (rx d). recv_fits (length (inMemory p)) r"
    using assms(2) by (simp add: wire_ok_def list_all_iff)
  note res = readPacket_loop_result [OF loop(1) fits]
  show "buffer_ok (p\<lparr>inMemory := b\<rparr>)" using res assms(3) by (simp add: buffer_ok_def)
  have sub: "set rest \<subseteq> set (rx d)"
    by (rule readPacket_loop_rest [OF loop(1)])
  show "wire_ok d'" "handle_of d' = handle_of d" using sub assms(2) by (auto simp: loop(2) wire_ok_def list_all_iff)
  show "n = -1 \<or> 0 \<le> n \<and> (n \<le> MY_PACKET_LEN \<longrightarrow> arp_complete (take (nat n) b))"
    using res assms(2) by (auto simp: wire_ok_def list_all_iff)
qed

text \<open>What forwarding a frame leaves alone: the exit flags, the static addresses, the users asked for, and of the database
  object everything but the two channels.\<close>

definition same_store :: "database \<Rightarrow> database \<Rightarrow> bool" where
  "same_store d d' \<longleftrightarrow> static_ip d' = static_ip d \<and> user d' = user d \<and> dnsList d' = dnsList d \<and>
     db_termEvent d' = db_termEvent d \<and> db_gotExit d' = db_gotExit d"

definition same_exit :: "server \<Rightarrow> server \<Rightarrow> bool" where
  "same_exit s s' \<longleftrightarrow> termEvent (gw s') = termEvent (gw s) \<and> gotExit (gw s') = gotExit (gw s) \<and>
     staticIPMap (gw s') = staticIPMap (gw s) \<and> staticIPAddRequest (gw s') = staticIPAddRequest (gw s) \<and> requested (gw s') = requested (gw s) \<and>
     handle_of (inDev (gw s')) = handle_of (inDev (gw s)) \<and> handle_of (outDev (gw s')) = handle_of (outDev (gw s)) \<and>
     same_store (db s) (db s')"

lemma same_exit_trans: "same_exit s s1 \<Longrightarrow> same_exit s1 s2 \<Longrightarrow> same_exit s s2"
  by (simp add: same_exit_def same_store_def)

lemma same_store_refl [simp]: "same_store d d"
  by (simp add: same_store_def)

lemma same_store_in [simp]: "same_store d (account now us v (dhcp_step f d))"
  by (auto simp: same_store_def account_def dhcp_step_def access_step_def createDHCP_def updateTime_def
      split: option.splits)

lemma in_frame_ok:
  assumes ok: "server_ok s" and wf: "wf_packet (inPacket s)" and len: "14 \<le> writtenByte (inPacket s)"
    and arp: "arp_complete (frame (inPacket s))"
  shows "\<exists>s'. in_frame now (writtenByte (inPacket s)) s = Inr s' \<and> server_ok s' \<and> same_exit s s'"
proof -
  let ?f = "frame (inPacket s)"
  let ?v = "out_verdict (gw s) ?f"
  have g: "gateway_ok (gw s)" "users_static (gw s)" using ok by (simp_all add: server_ok_def fed_ok_def)
  from in_frame_refines [OF g wf len arp, of now] obtain hp where
    hp: "in_frame now (writtenByte (inPacket s)) s =
      Inr (s\<lparr>gw := (gw s)\<lparr>heap := hp, outDev := sent_opt (outDev (gw s)) (map_option fst ?v)\<rparr>,
             db := account now (registered (gw s)) ?v (dhcp_step ?f (db s)),
             inPacket := kept_frame (inPacket s) (map_option fst ?v)\<rparr>)"
      "gateway_ok ((gw s)\<lparr>heap := hp\<rparr>)" "registered ((gw s)\<lparr>heap := hp\<rparr>) = accounted now ?v (registered (gw s))"
      "requested ((gw s)\<lparr>heap := hp\<rparr>) = requested (gw s)" by blast
  let ?g = "(gw s)\<lparr>heap := hp, outDev := sent_opt (outDev (gw s)) (map_option fst ?v)\<rparr>"
  have "fed_ok (gw s)" using ok by (simp add: server_ok_def)
  from fed_ok_mono [OF this, of ?g] hp g have "fed_ok ?g" "users_static ?g"
    by (simp_all add: accounted_dom)
  moreover have "buffer_ok (kept_frame (inPacket s) (map_option fst ?v))"
  proof (cases ?v)
    case (Some w)
    have "length (fst w) = length ?f"
      using Some arp wf len frame_out_shape(1) [of "statics_of (gw s)" "registered (gw s)" ?f "fst w" "snd w"]
      by (simp add: out_verdict_def le_nat_iff)
    then show ?thesis
      using Some ok wf by (auto simp: kept_frame_def server_ok_def wf_packet_def buffer_ok_def [of "inPacket s"]
          intro!: buffer_kept)
  qed (use ok in \<open>simp add: kept_frame_def server_ok_def\<close>)
  ultimately show ?thesis
    using hp(1,4) ok by (simp add: server_ok_def channels_in same_exit_def)
qed

lemma out_frame_ok:
  assumes ok: "server_ok s" and wf: "wf_packet (outPacket s)" and arp: "arp_complete (frame (outPacket s))"
  shows "\<exists>s'. out_frame (writtenByte (outPacket s)) s = Inr s' \<and> server_ok s' \<and> same_exit s s'"
proof -
  let ?f = "frame (outPacket s)"
  let ?v = "in_verdict (gw s) ?f" and ?ko = "stale_of (gw s) ?f"
  have g: "gateway_ok (gw s)" using ok by (simp add: server_ok_def fed_ok_def)
  have cap: "6 \<le> capacity (outPacket s)" using ok by (simp add: server_ok_def buffer_ok_def sizes)
  note res = out_frame_refines [OF g wf cap arp]
  have k: "?ko = Some k \<Longrightarrow> registered (gw s) k \<noteq> None" for k using stale_registered by blast
  note f = forgotten_ok [OF g, of ?ko, OF k]
  let ?g = "(forgotten ?ko (gw s))\<lparr>inDev := sent_from (inDev (gw s)) (outPacket s) ?v\<rparr>"
  have same: "staticIPMap (forgotten ko g) = staticIPMap g"
    "staticIPAddRequest (forgotten ko g) = staticIPAddRequest g"
    "staticIPDelRequest (forgotten ko g) = staticIPDelRequest g" "termEvent (forgotten ko g) = termEvent g"
    "gotExit (forgotten ko g) = gotExit g" for ko g
    by (simp_all add: forgotten_def split: option.splits)
  have fed: "fed_ok (gw s)" using ok by (simp add: server_ok_def)
  have sub: "registered ?g k \<noteq> None \<Longrightarrow> registered (gw s) k \<noteq> None" for k
    by (simp add: f(2) split: if_split_asm)
  have "fed_ok ?g"
    by (rule fed_ok_mono(1) [OF fed _ _ _ _ sub]) (simp_all add: f same)
  moreover have "users_static ?g" using f(7) ok by (simp add: server_ok_def)
  moreover have "buffer_ok (kept_frame (outPacket s) ?v)"
  proof (cases ?v)
    case (Some w)
    have "length w = length ?f"
      using Some arp frame_in_length [of "statics_of (gw s)" "registered (gw s)" ?f w]
      by (simp add: in_verdict_def)
    then show ?thesis
      using Some ok wf by (auto simp: kept_frame_def server_ok_def wf_packet_def buffer_ok_def [of "outPacket s"]
          intro!: buffer_kept)
  qed (use ok in \<open>simp add: kept_frame_def server_ok_def\<close>)
  ultimately show ?thesis
    using res ok f(3,6) by (simp add: server_ok_def same same_exit_def)
qed

section \<open>Turns\<close>

text \<open>What the allocator gives \<^verbatim>\<open>icmp_mtu\<close>: a block of the 70 bytes it asks for.\<close>

definition icmp_block :: "byte list option \<Rightarrow> bool" where
  "icmp_block mem \<longleftrightarrow> (case mem of None \<Rightarrow> False | Some m \<Rightarrow> length m = 70)"

lemma fed_ok_devices [simp]: "fed_ok (g\<lparr>inDev := d\<rparr>) = fed_ok g" "fed_ok (g\<lparr>outDev := d\<rparr>) = fed_ok g"
  by (simp_all add: fed_ok_def known_def statics_of_def)

lemma buffer_setLength [simp]: "buffer_ok (setLength p n) = buffer_ok p"
  by (simp add: buffer_ok_def)

lemma buffer_wf: "buffer_ok p \<Longrightarrow> 0 \<le> n \<Longrightarrow> n \<le> MY_PACKET_LEN \<Longrightarrow> wf_packet (setLength p n)"
  by (simp add: buffer_ok_def wf_packet_def)

lemma in_step_ok:
  assumes ok: "server_ok s" and mem: "icmp_block mem"
  shows "\<exists>go s'. in_step mem now s = Inr (go, s') \<and> server_ok s' \<and> same_exit s s'"
proof -
  obtain n b dev where rd: "readPacket (inDev (gw s)) (inMemory (inPacket s)) = (n, b, dev)"
    by (metis prod_cases3)
  obtain m where m: "mem = Some m" "length m = 70" using mem by (auto simp: icmp_block_def split: option.splits)
  have "wire_ok (inDev (gw s))" "buffer_ok (inPacket s)" using ok by (simp_all add: server_ok_def)
  note read = read_ok [OF rd this]
  let ?p = "(inPacket s)\<lparr>inMemory := b\<rparr>"
  let ?s = "s\<lparr>gw := (gw s)\<lparr>inDev := dev\<rparr>, inPacket := ?p\<rparr>"
  have s1: "server_ok ?s" using ok read(1,2) by (simp add: server_ok_def)
  consider "n = -1" | "n > MY_PACKET_LEN" | "n \<noteq> -1" "n < 14" | "14 \<le> n" "n \<le> MY_PACKET_LEN"
    by linarith
  then show ?thesis
  proof cases
    case 2
    have "wf_packet (setLength ?p MY_PACKET_LEN)" using read(1) by (intro buffer_wf) (simp_all add: sizes)
    note icmp = icmp_mtu_ok [OF this m(2), of dev "word_of_int MY_MTU"]
    show ?thesis
      using 2 s1 icmp m read(3) by (auto simp: in_step_def rd same_exit_def sizes server_ok_def Let_def)
  next
    case 4
    let ?s2 = "?s\<lparr>inPacket := setLength ?p n\<rparr>"
    have "server_ok ?s2" using s1 by (simp add: server_ok_def)
    moreover have "wf_packet (setLength ?p n)" using read(1) 4 by (intro buffer_wf) simp_all
    moreover have "arp_complete (frame (setLength ?p n))" using read(4) 4 by (simp add: frame_def)
    ultimately obtain s' where "in_frame now n ?s2 = Inr s'" "server_ok s'" "same_exit s s'"
      using in_frame_ok [of ?s2 now] 4 read(3) by (auto simp: same_exit_def)
    then show ?thesis using 4 by (auto simp: in_step_def rd sizes Let_def)
  qed (use s1 read(3) in \<open>auto simp: in_step_def rd same_exit_def sizes Let_def\<close>)
qed

lemma out_step_ok:
  assumes ok: "server_ok s" and mem: "icmp_block mem"
  shows "\<exists>go s'. out_step mem s = Inr (go, s') \<and> server_ok s' \<and> same_exit s s'"
proof -
  obtain n b dev where rd: "readPacket (outDev (gw s)) (inMemory (outPacket s)) = (n, b, dev)"
    by (metis prod_cases3)
  obtain m where m: "mem = Some m" "length m = 70" using mem by (auto simp: icmp_block_def split: option.splits)
  have "wire_ok (outDev (gw s))" "buffer_ok (outPacket s)" using ok by (simp_all add: server_ok_def)
  note read = read_ok [OF rd this]
  let ?p = "(outPacket s)\<lparr>inMemory := b\<rparr>"
  let ?s = "s\<lparr>gw := (gw s)\<lparr>outDev := dev\<rparr>, outPacket := ?p\<rparr>"
  have s1: "server_ok ?s" using ok read(1,2) by (simp add: server_ok_def)
  consider "n = -1" | "n > MY_PACKET_LEN" | "0 \<le> n" "n \<le> MY_PACKET_LEN"
    using read(4) by force
  then show ?thesis
  proof cases
    case 2
    have "wf_packet (setLength ?p MY_PACKET_LEN)" using read(1) by (intro buffer_wf) (simp_all add: sizes)
    note icmp = icmp_mtu_ok [OF this m(2), of dev "word_of_int MY_MTU"]
    show ?thesis
      using 2 s1 icmp m read(3) by (auto simp: out_step_def rd same_exit_def sizes server_ok_def Let_def)
  next
    case 3
    let ?s2 = "?s\<lparr>outPacket := setLength ?p n\<rparr>"
    have "server_ok ?s2" using s1 by (simp add: server_ok_def)
    moreover have "wf_packet (setLength ?p n)" using read(1) 3 by (intro buffer_wf) simp_all
    moreover have "arp_complete (frame (setLength ?p n))" using read(4) 3 by (simp add: frame_def)
    ultimately obtain s' where "out_frame n ?s2 = Inr s'" "server_ok s'" "same_exit s s'"
      using out_frame_ok [of ?s2] read(3) by (auto simp: same_exit_def)
    then show ?thesis using 3 by (auto simp: out_step_def rd sizes Let_def)
  qed (use s1 read(3) in \<open>auto simp: out_step_def rd same_exit_def sizes Let_def\<close>)
qed

lemma burst_loop_ok:
  assumes "\<And>k s. server_ok s \<Longrightarrow> \<exists>go s'. step k s = Inr (go, s') \<and> server_ok s' \<and> same_exit s s'"
    and "server_ok s"
  shows "\<exists>n' s'. burst_loop step left n s = Inr (n', s') \<and> server_ok s' \<and> same_exit s s' \<and> n' \<le> n + left"
  using assms(2)
proof (induction left arbitrary: n s)
  case (Suc left)
  from assms(1) [OF Suc.prems, of n] obtain go s1 where
    1: "step n s = Inr (go, s1)" "server_ok s1" "same_exit s s1" by blast
  show ?case
  proof (cases go)
    case True
    from Suc.IH [OF 1(2), of "Suc n"] obtain n' s' where
      "burst_loop step left (Suc n) s1 = Inr (n', s')" "server_ok s'" "same_exit s1 s'" "n' \<le> Suc n + left" by blast
    with 1 True show ?thesis by (intro exI [of _ n'] exI [of _ s']) (simp add: same_exit_trans [OF 1(3)])
  qed (use 1 in auto)
qed (simp add: same_exit_def)

definition turn_ok :: "turn \<Rightarrow> bool" where
  "turn_ok t \<longleftrightarrow> (\<forall>k. icmp_block (in_mem t k) \<and> icmp_block (out_mem t k)) \<and>
     H_add_static \<in> set (event_order t)"

lemma serve_turn_ok:
  assumes ok: "server_ok s" and t: "turn_ok t"
  shows "\<exists>s'. serve_turn t s = Inr s' \<and> server_ok s' \<and>
    (gotExit (gw s) \<or> H_term \<in> set (event_order t) \<and> termEvent (gw s) > 0 \<longrightarrow> gotExit (gw s'))"
proof -
  have mem: "icmp_block (in_mem t k)" "icmp_block (out_mem t k)" for k using t by (simp_all add: turn_ok_def)
  obtain n1 s1 where
    1: "burst_loop (\<lambda>k. in_step (in_mem t k) (current_time t)) IO_BURST 0 s = Inr (n1, s1)" "server_ok s1"
      "same_exit s s1"
    using burst_loop_ok [of "\<lambda>k. in_step (in_mem t k) (current_time t)", OF in_step_ok [OF _ mem(1)] ok] by blast
  obtain n2 s2 where
    2: "burst_loop (\<lambda>k. out_step (out_mem t k)) IO_BURST 0 s1 = Inr (n2, s2)" "server_ok s2" "same_exit s1 s2"
    using burst_loop_ok [of "\<lambda>k. out_step (out_mem t k)", OF out_step_ok [OF _ mem(2)] 1(2)] by blast
  have "fed_ok (gw s2)" using 2(2) by (simp add: server_ok_def)
  from event_base_loop_ok [OF this, of "event_order t"] t obtain g where
    3: "event_base_loop (event_order t) (gw s2) = Inr g" "fed_ok g" "users_static g" "same_wires (gw s2) g"
      "gotExit (gw s2) \<or> H_term \<in> set (event_order t) \<and> termEvent (gw s2) > 0 \<longrightarrow> gotExit g"
    by (auto simp: turn_ok_def)
  have "server_ok (s2\<lparr>gw := g\<rparr>)"
    using 2(2) 3(2-4) by (simp add: server_ok_def same_wires_def wire_ok_def)
  then show ?thesis
    using 1 2 3 by (auto simp: serve_turn_def same_exit_def)
qed

lemma serve_ok:
  "server_ok s \<Longrightarrow> list_all turn_ok ts \<Longrightarrow> \<exists>s'. serve ts s = Inr s' \<and> server_ok s'"
proof (induction ts arbitrary: s)
  case (Cons t ts)
  from serve_turn_ok [of s t] Cons.prems obtain s1 where "serve_turn t s = Inr s1" "server_ok s1" by auto
  with Cons show ?case by auto
qed simp

section \<open>Properties\<close>

text \<open>
  The forwarding thread never faults. Started in a state that satisfies the invariant, with the
  kernel delivering frames that fit the buffer and no ARP frame cut short, the allocator answering and the
  event library running the handler for new static addresses whenever it is ready, any
  number of turns of the loop returns and the invariant holds again: no read of uninitialised data, no
  end iterator, no freed block, no empty queue and no access outside a buffer.
\<close>

theorem serve_never_faults:
  assumes "server_ok s" and "list_all turn_ok ts"
  shows "\<exists>s'. serve ts s = Inr s' \<and> server_ok s'"
  using assms by (rule serve_ok)

definition fresh_packet :: packet where
  "fresh_packet = \<lparr>writtenByte = 0, capacity = 1514, inMemory = replicate 1514 0\<rparr>"

text \<open>A server with a user's frame waiting inside, and a turn for it.\<close>

definition busy_server :: server where
  "busy_server = \<lparr>gw = sample_gateway\<lparr>inDev := (inDev sample_gateway)\<lparr>rx :=
      [\<lparr>ra_ret = 48, ra_data = ip_sample 7 1 5 6, ra_len = 20, ra_hatype = 1, ra_ifindex = 3, ra_pkttype = 0\<rparr>]\<rparr>,
      outDev := (outDev sample_gateway)\<lparr>rx := []\<rparr>\<rparr>,
     db = sample_db, inPacket = fresh_packet, outPacket = fresh_packet\<rparr>"

definition sample_turn :: turn where
  "sample_turn = \<lparr>current_time = 100, in_mem = (\<lambda>_. Some (replicate 70 0)), out_mem = (\<lambda>_. Some (replicate 70 0)),
     event_order = [H_add_user, H_add_static, H_term]\<rparr>"

lemma busy_server_ok: "server_ok busy_server"
proof -
  have req: "requested sample_gateway = [info_b]" by (simp add: requested_def sample_gateway_def blocks_def)
  have known: "known sample_gateway k = (k = 5)" for k
    by (simp add: known_def sample_tables) (simp add: sample_gateway_def Gateway_new_def eq.contents_empty)
  have "fed_ok sample_gateway"
    using sample_gateway_ok by (simp add: fed_ok_def known sample_tables req)
      (simp add: info_b_def sample_gateway_def Gateway_new_def eq.contents_empty)
  then show ?thesis
    using sample_tables(3) ip_sample_fields(1,2) [of 7 1 5 6]
    by (simp add: server_ok_def busy_server_def channels_ok_def sample_db_def eq.invar_empty buffer_ok_def
        fresh_packet_def wire_ok_def recv_fits_def arp_complete_def sizes)
qed

lemma sample_turn_ok: "turn_ok sample_turn"
  by (simp add: turn_ok_def sample_turn_def icmp_block_def)

theorem serve_never_faults_witness:
  "\<exists>s'. serve [sample_turn, sample_turn] busy_server = Inr s' \<and> server_ok s'"
  by (rule serve_never_faults) (simp_all add: busy_server_ok sample_turn_ok)

text \<open>
  C28: A call of \<^verbatim>\<open>terminate\<close> ends the forwarding loop: in a turn in which the event library runs the
  termination handler the loop is left after that turn, whatever else is pending, and no later
  turn happens.
\<close>

theorem terminate_ends_serve:
  assumes "server_ok s" and "turn_ok t" and "H_term \<in> set (event_order t)"
  shows "\<exists>s'. serve (t # ts) (s\<lparr>gw := terminate (gw s)\<rparr>) = Inr s' \<and>
    (\<not> gotExit (gw s) \<longrightarrow> gotExit (gw s') \<and> serve_turn t (s\<lparr>gw := terminate (gw s)\<rparr>) = Inr s')"
proof -
  let ?s = "s\<lparr>gw := terminate (gw s)\<rparr>"
  have "fed_ok (terminate (gw s))"
    by (rule fed_ok_mono(1) [of "gw s"]) (use assms(1) channel_ops_ok(4) [of "gw s"] in
      \<open>simp_all add: server_ok_def fed_ok_def terminate_def registered_def requested_def\<close>)
  then have ok: "server_ok ?s"
    using assms(1) by (simp add: server_ok_def terminate_def users_static_def)
  from serve_turn_ok [OF ok assms(2)] obtain s' where
    "serve_turn t ?s = Inr s'" "server_ok s'" "gotExit (gw s')"
    using assms(3) by (auto simp: terminate_def)
  moreover have "gotExit (terminate (gw s)) = gotExit (gw s)" by (simp add: terminate_def)
  ultimately show ?thesis by (cases ts) auto
qed

theorem terminate_ends_serve_witness:
  "\<exists>s'. serve [sample_turn, sample_turn] (busy_server\<lparr>gw := terminate (gw busy_server)\<rparr>) = Inr s' \<and>
    gotExit (gw s')"
proof -
  have "H_term \<in> set (event_order sample_turn)" by (simp add: sample_turn_def)
  moreover have "\<not> gotExit (gw busy_server)"
    by (simp add: busy_server_def sample_gateway_def Gateway_new_def)
  ultimately show ?thesis
    using terminate_ends_serve [OF busy_server_ok sample_turn_ok, of "[sample_turn]"] by auto
qed

end
