(* ===== verification/Main_Props.thy ===== *)
theory Main_Props
  imports Main_Program Database_Policy Gateway_Loop
begin

text \<open>
  What the start of the program guarantees: which command lines are accepted, that waiting for the
  database server ends, and that the loaded tables arrive in the gateway.
\<close>

section \<open>Options\<close>

definition is_long :: "nat \<Rightarrow> getopt \<Rightarrow> bool" where
  "is_long k p \<longleftrightarrow> go_long p = k"

definition is_short :: "char \<Rightarrow> getopt \<Rightarrow> bool" where
  "is_short c p \<longleftrightarrow> go_long p = 0 \<and> go_c p = c"

definition occurs :: "(getopt \<Rightarrow> bool) \<Rightarrow> getopt list \<Rightarrow> nat" where
  "occurs P ps = length (filter P ps)"

definition mandatory :: "getopt list \<Rightarrow> nat" where
  "mandatory ps = occurs (is_long 1) ps + occurs (is_long 2) ps + min 1 (occurs (is_long 3) ps) +
     occurs (is_short CHR ''i'') ps + occurs (is_short CHR ''o'') ps + occurs (is_short CHR ''u'') ps +
     occurs (is_short CHR ''p'') ps"

definition known_option :: "getopt \<Rightarrow> bool" where
  "known_option p \<longleftrightarrow> go_long p \<noteq> 0 \<or> go_c p \<in> {CHR 0x00, CHR ''i'', CHR ''o'', CHR ''u'', CHR ''p'', CHR ''d'', CHR ''t'', CHR ''n''}"

lemma known_optionE:
  assumes "known_option p" and "go_long p = 0"
  obtains "go_c p = CHR 0x00" | "go_c p = CHR ''i''" | "go_c p = CHR ''o''" | "go_c p = CHR ''u''"
    | "go_c p = CHR ''p''" | "go_c p = CHR ''d''" | "go_c p = CHR ''t''" | "go_c p = CHR ''n''"
  using assms by (simp add: known_option_def) blast

lemma occurs_Nil [simp]: "occurs P [] = 0"
  by (simp add: occurs_def)

lemma occurs_snoc [simp]: "occurs P (ps @ [p]) = occurs P ps + (if P p then 1 else 0)"
  by (simp add: occurs_def)

lemma option_step_known: "option_step p o1 = Inl e \<longleftrightarrow> \<not> known_option p \<and> e = Exit"
  by (auto simp: option_step_def known_option_def Let_def)

text \<open>What has been read so far.\<close>

definition options_read :: "getopt list \<Rightarrow> options \<Rightarrow> bool" where
  "options_read ps o1 \<longleftrightarrow> neccessary o1 = 7 - int (mandatory ps) \<and>
     length (opt_dnsList o1) = occurs (is_long 3) ps \<and>
     (in_dev o1 = None \<longleftrightarrow> occurs (is_short CHR ''i'') ps = 0) \<and>
     (out_dev o1 = None \<longleftrightarrow> occurs (is_short CHR ''o'') ps = 0) \<and>
     (db_user o1 = None \<longleftrightarrow> occurs (is_short CHR ''u'') ps = 0) \<and>
     (db_pass o1 = None \<longleftrightarrow> occurs (is_short CHR ''p'') ps = 0) \<and>
     db_name o1 \<noteq> None \<and> 0 \<le> opt_timeout o1 \<and> opt_timeout o1 < 2 ^ 31"

lemma atoi_bound: "atoi s < 2 ^ 31"
proof -
  have "sint (w :: 32 word) < 2 ^ 31" for w using sint_less [of w] by simp
  then show ?thesis by (simp add: atoi_def Let_def split: prod.split)
qed

lemma options_start_read: "options_read [] options_start"
  by (simp add: options_read_def options_start_def mandatory_def strncpy_def)

lemma option_step_long:
  assumes old: "options_read ps o1" and step: "option_step p o1 = Inr o2" and "go_long p \<noteq> 0"
  shows "options_read (ps @ [p]) o2"
proof -
  note defs = options_read_def mandatory_def is_long_def decr_def
  have short: "is_short c p = False" for c using assms(3) by (simp add: is_short_def)
  consider (gateway) "go_long p = 1" | (subnet) "go_long p = 2" | (dns) "go_long p = 3"
    | (other) "go_long p \<noteq> 1" "go_long p \<noteq> 2" "go_long p \<noteq> 3" by blast
  then show ?thesis
  proof cases
    case gateway
    then have "o2 = (decr o1)\<lparr>opt_gatewayIP := \<lparr>s_addr = inet_addr (go_arg p)\<rparr>\<rparr>"
      using step by (simp add: option_step_def)
    then show ?thesis using old gateway by (simp add: defs short)
  next
    case subnet
    then have "o2 = (decr o1)\<lparr>opt_subnetMask := \<lparr>s_addr = inet_addr (go_arg p)\<rparr>\<rparr>"
      using step by (simp add: option_step_def)
    then show ?thesis using old subnet by (simp add: defs short)
  next
    case dns
    then have o2: "o2 = (if length (opt_dnsList o1) = 0 then decr o1 else o1)\<lparr>opt_dnsList := opt_dnsList o1 @
        [\<lparr>s_addr = inet_addr (go_arg p)\<rparr>]\<rparr>"
      using step by (simp add: option_step_def Let_def decr_def split: if_split_asm)
    have n: "length (opt_dnsList o1) = occurs (is_long 3) ps" using old by (simp add: options_read_def)
    show ?thesis using old dns n by (cases "occurs (is_long 3) ps") (simp_all add: o2 defs short)
  next
    case other
    then have "o2 = o1" using step assms(3) by (simp add: option_step_def)
    then show ?thesis using old other by (simp add: defs short)
  qed
qed

lemma option_step_short:
  assumes old: "options_read ps o1" and step: "option_step p o1 = Inr o2" and long: "go_long p = 0"
  shows "options_read (ps @ [p]) o2"
proof -
  have known: "known_option p" using step option_step_known [of p o1] by (cases "known_option p") auto
  have tmo: "atoi (go_arg p) < 2147483648" using atoi_bound [of "go_arg p"] by simp
  have no: "is_long k p = (k = 0)" for k using long by (auto simp: is_long_def)
  have short: "is_short c p = (go_c p = c)" for c using long by (simp add: is_short_def)
  let ?c = "go_c p" and ?a = "go_arg p"
  have "?c = CHR 0x00 \<and> o2 = o1 \<or> ?c = CHR ''i'' \<and> o2 = (decr o1)\<lparr>in_dev := strncpy ?a IFNAMSIZ\<rparr> \<or>
      ?c = CHR ''o'' \<and> o2 = (decr o1)\<lparr>out_dev := strncpy ?a IFNAMSIZ\<rparr> \<or>
      ?c = CHR ''u'' \<and> o2 = (decr o1)\<lparr>db_user := strncpy ?a 255\<rparr> \<or>
      ?c = CHR ''p'' \<and> o2 = (decr o1)\<lparr>db_pass := strncpy ?a 255\<rparr> \<or> ?c = CHR ''d'' \<and> o2 = o1\<lparr>daemonize := True\<rparr> \<or>
      ?c = CHR ''t'' \<and> o2 = o1\<lparr>opt_timeout := if atoi ?a < 0 then 10000 else atoi ?a\<rparr> \<or>
      ?c = CHR ''n'' \<and> o2 = o1\<lparr>db_name := strncpy ?a 255\<rparr>"
    using known long
    by (rule known_optionE) (use step long in \<open>simp_all add: option_step_def Let_def\<close>)
  then show ?thesis
    using old tmo by (elim disjE conjE) (simp_all add: options_read_def mandatory_def no short decr_def strncpy_def)
qed

lemma option_step_read:
  "options_read ps o1 \<Longrightarrow> option_step p o1 = Inr o2 \<Longrightarrow> options_read (ps @ [p]) o2"
  by (cases "go_long p = 0") (auto intro: option_step_long option_step_short)

lemma options_fold_read:
  "foldR option_step ps options_start = Inr o1 \<Longrightarrow> options_read ps o1"
proof (induction ps arbitrary: o1 rule: rev_induct)
  case (snoc p ps)
  then show ?case using option_step_read by (auto simp: foldR_append)
qed (simp add: options_start_read)

lemma options_fold_total:
  "list_all known_option ps \<longleftrightarrow> (\<exists>o1. foldR option_step ps o2 = Inr o1)"
proof (induction ps arbitrary: o2)
  case (Cons p ps)
  show ?case
  proof (cases "option_step p o2")
    case (Inl e)
    then have "\<not> known_option p" using option_step_known [of p o2 e] by simp
    with Inl show ?thesis by simp
  next
    case (Inr o3)
    then have "known_option p" using option_step_known [of p o2] by (cases "known_option p") auto
    with Inr Cons.IH [of o3] show ?thesis by simp
  qed
qed simp

text \<open>
  C33: Which command lines are accepted. The program goes on exactly when every option is known and
  the occurrences of the mandatory ones, all those of \<^verbatim>\<open>--dns\<close> counted as one, add up to seven, and
  ends otherwise. It then holds as many name servers as were given, an array is
  initialised exactly if its option occurred, and the timeout is a non-negative 32-bit number.
\<close>

theorem options_accepted:
  "if list_all known_option ps \<and> mandatory ps = 7 then \<exists>o1. read_options ps = Inr o1 \<and> options_read ps o1
   else read_options ps = Inl Exit"
proof (cases "foldR option_step ps options_start")
  case (Inl e)
  then have "\<not> list_all known_option ps" using options_fold_total [of ps options_start] by simp
  moreover have "e = Exit"
    using Inl by (induction ps arbitrary: e rule: rev_induct)
      (auto simp: foldR_append bindR_eq_Inl option_step_known)
  ultimately show ?thesis using Inl by (simp add: read_options_def)
next
  case (Inr o1)
  have "list_all known_option ps" using Inr options_fold_total [of ps options_start] by simp
  moreover have "options_read ps o1" by (rule options_fold_read [OF Inr])
  moreover have "neccessary o1 = 0 \<longleftrightarrow> mandatory ps = 7" using calculation(2) by (auto simp: options_read_def)
  ultimately show ?thesis using Inr by (simp add: read_options_def)
qed

text \<open>
  C38: Counting occurrences is not enough. A command line that is accepted although it does not name the
  database user, for instance because another option is given twice, makes the program read
  an array it never wrote.
\<close>

theorem missing_user_uninitialised:
  assumes "read_options ps = Inr o1" and "occurs (is_short CHR ''u'') ps = 0"
  shows "start se o1 statics users = Inl Uninitialised"
proof -
  have "foldR option_step ps options_start = Inr o1"
    using assms(1) by (auto simp: read_options_def split: if_split_asm)
  from options_fold_read [OF this] assms(2) have "db_user o1 = None" by (simp add: options_read_def)
  then show ?thesis by (simp add: start_def c_string_def)
qed

definition short_opt :: "char \<Rightarrow> string \<Rightarrow> getopt" where
  "short_opt c a = \<lparr>go_long = 0, go_c = c, go_arg = a\<rparr>"

definition long_opt :: "nat \<Rightarrow> string \<Rightarrow> getopt" where
  "long_opt k a = \<lparr>go_long = k, go_c = CHR 0x00, go_arg = a\<rparr>"

definition twice_gateway :: "getopt list" where
  "twice_gateway = [long_opt 1 ''10.0.0.1'', long_opt 1 ''10.0.0.1'', long_opt 2 ''255.0.0.0'', long_opt 3 ''8.8.8.8'',
     short_opt CHR ''i'' ''eth0'', short_opt CHR ''o'' ''eth1'', short_opt CHR ''p'' ''secret'']"

theorem missing_user_uninitialised_witness:
  "\<exists>o1. read_options twice_gateway = Inr o1 \<and> (\<forall>se statics users. start se o1 statics users = Inl Uninitialised)"
proof -
  have "\<exists>o1. read_options twice_gateway = Inr o1"
    by (simp add: read_options_def twice_gateway_def option_step_def long_opt_def short_opt_def decr_def
        options_start_def Let_def)
  moreover have "occurs (is_short CHR ''u'') twice_gateway = 0"
    by (simp add: occurs_def twice_gateway_def is_short_def long_opt_def short_opt_def)
  ultimately show ?thesis using missing_user_uninitialised by blast
qed

section \<open>Waiting\<close>

lemma wait_mysqld_found:
  "\<exists>k. fail \<le> k \<and> k < 30 \<and> mysqld_found (look k) \<Longrightarrow>
   wait_mysqld look fail slept =
     (LEAST k. fail \<le> k \<and> mysqld_found (look k), slept + ((LEAST k. fail \<le> k \<and> mysqld_found (look k)) - fail))"
proof (induction look fail slept rule: wait_mysqld.induct)
  case (1 look fail slept)
  then have lt: "fail < MYSQL_RETRY_COUNT" by (auto simp: MYSQL_RETRY_COUNT_def)
  show ?case
  proof (cases "mysqld_found (look fail)")
    case True
    then have "(LEAST k. fail \<le> k \<and> mysqld_found (look k)) = fail" by (intro Least_equality) auto
    with True lt show ?thesis by (simp add: wait_mysqld.simps [of look fail])
  next
    case False
    then have same: "(fail \<le> k \<and> mysqld_found (look k)) = (fail + 1 \<le> k \<and> mysqld_found (look k))" for k
      by (metis Suc_eq_plus1 Suc_leD le_neq_implies_less Suc_leI)
    have ex: "\<exists>k. fail + 1 \<le> k \<and> k < 30 \<and> mysqld_found (look k)" using 1(2) same by blast
    then have "fail + 1 \<le> (LEAST k. fail + 1 \<le> k \<and> mysqld_found (look k))"
      by (metis (mono_tags, lifting) LeastI)
    with 1(1) [OF lt False ex] lt False show ?thesis by (simp add: wait_mysqld.simps [of look fail] same)
  qed
qed

lemma wait_mysqld_none:
  "\<forall>k. fail \<le> k \<and> k < 30 \<longrightarrow> \<not> mysqld_found (look k) \<Longrightarrow> fail \<le> 30 \<Longrightarrow> fst (wait_mysqld look fail slept) = 30"
proof (induction look fail slept rule: wait_mysqld.induct)
  case (1 look fail slept)
  then show ?case
    by (cases "fail < 30") (simp_all add: wait_mysqld.simps [of look fail] wait_mysqld.simps [of look 30] MYSQL_RETRY_COUNT_def)
qed

lemma wait_server_found:
  assumes "\<exists>k<30. mysqld_found (look k)"
  shows "wait_server look = Inr ((LEAST k. mysqld_found (look k)) + 5)" and "(LEAST k. mysqld_found (look k)) < 30"
proof -
  obtain k where k: "k < 30" "mysqld_found (look k)" using assms by blast
  have "(LEAST k. mysqld_found (look k)) \<le> k" using k(2) by (rule Least_le)
  with k show lt: "(LEAST k. mysqld_found (look k)) < 30" by simp
  have "wait_mysqld look 0 0 = (LEAST k. mysqld_found (look k), LEAST k. mysqld_found (look k))"
    using wait_mysqld_found [of 0 look 0] k by auto
  with lt show "wait_server look = Inr ((LEAST k. mysqld_found (look k)) + 5)"
    by (simp add: wait_server_def MYSQL_RETRY_COUNT_def MYSQL_FINAL_WAIT_def)
qed

text \<open>
  C34: Waiting for the database server ends. The pid file is looked at no more than thirty times. The
  program goes on after the first look that finds a server, having slept one second for every
  earlier look and five more, so at most 34; it ends if none of the thirty does.
\<close>

theorem wait_server_ends:
  "wait_server look =
     (if \<exists>k<30. mysqld_found (look k) then Inr ((LEAST k. mysqld_found (look k)) + 5) else Inl Exit) \<and>
   (case wait_server look of Inl e \<Rightarrow> e = Exit | Inr secs \<Rightarrow> secs \<le> 34)"
proof (cases "\<exists>k<30. mysqld_found (look k)")
  case True
  with wait_server_found [OF True] show ?thesis by simp
next
  case False
  with wait_mysqld_none [of 0 look 0] show ?thesis
    by (cases "wait_mysqld look 0 0") (simp add: wait_server_def MYSQL_RETRY_COUNT_def)
qed

section \<open>Loading\<close>

text \<open>What a row of each table stands for.\<close>

definition column_mac :: "string \<Rightarrow> ether_addr" where
  "column_mac s = (case readMAC s of Inl _ \<Rightarrow> EtherAddr 0 0 0 0 0 0 | Inr m \<Rightarrow> m)"

definition readable :: "string \<Rightarrow> bool" where
  "readable s \<longleftrightarrow> (case readMAC s of Inl _ \<Rightarrow> False | Inr _ \<Rightarrow> True)"

definition static_pair :: "static_ip_row \<Rightarrow> in_addr \<times> ether_addr" where
  "static_pair r = (lease_addr (sr_ip r), column_mac (sr_mac r))"

definition user_of :: "u64 \<Rightarrow> user_row \<Rightarrow> userInfo" where
  "user_of tmo u =
     \<lparr>ui_ip = lease_addr (case ur_ip u of None \<Rightarrow> [] | Some a \<Rightarrow> a), user_mac = column_mac (ur_mac u),
      last_access = word_of_int (ur_accessed u), timeout = tmo\<rparr>"

lemma readable_mac: "readable s \<Longrightarrow> readMAC s = Inr (column_mac s)"
  by (simp add: readable_def column_mac_def split: sum.splits)

lemma static_ip_rows_ok:
  "list_all (\<lambda>r. readable (sr_mac r)) rs \<Longrightarrow> static_ip_rows rs = Inr (map static_pair rs)"
  by (induction rs) (simp_all add: readable_mac static_pair_def lease_addr_def)

lemma user_rows_ok:
  "list_all (\<lambda>u. readable (ur_mac u)) us \<Longrightarrow> user_rows tmo us = Inr (map (user_of tmo) us)"
  by (induction us) (simp_all add: readable_mac user_of_def lease_addr_def)

lemma add_statics_queue:
  "add_statics xs g = g\<lparr>staticIPAddRequest := fold eq_push xs (staticIPAddRequest g)\<rparr>"
  by (induction xs g rule: add_statics.induct) (simp_all add: addStaticIP_def)

lemma add_statics_ok:
  assumes "gateway_ok g"
  shows "gateway_ok (add_statics xs g)" and "registered (add_statics xs g) = registered g"
    and "requested (add_statics xs g) = requested g"
    and "requests (staticIPAddRequest (add_statics xs g)) = requests (staticIPAddRequest g) @ xs"
  using assms by (simp_all add: add_statics_queue gateway_ok_def registered_def requested_def eq.invar_pushes
      eq.contents_pushes)

lemma addUserInfo_frame:
  assumes "addUserInfo (Some p) i g = Inr g'"
  shows "staticIPMap g' = staticIPMap g" and "staticIPAddRequest g' = staticIPAddRequest g"
    and "staticIPDelRequest g' = staticIPDelRequest g" and "inDev g' = inDev g" and "outDev g' = outDev g"
    and "gotExit g' = gotExit g" and "um_find (heap g) q = None \<Longrightarrow> q \<noteq> p \<Longrightarrow> um_find (heap g') q = None"
  using assms by (auto simp: addUserInfo_def)

lemma add_users_ok:
  "gateway_ok g \<Longrightarrow> distinct ps \<Longrightarrow> \<forall>p\<in>set ps. um_find (heap g) p = None \<Longrightarrow> length is \<le> length ps \<Longrightarrow>
   \<exists>g'. add_users (map Some ps) is g = Inr g' \<and> gateway_ok g' \<and> registered g' = registered g \<and>
     requested g' = requested g @ is \<and> staticIPMap g' = staticIPMap g \<and>
     staticIPAddRequest g' = staticIPAddRequest g \<and> staticIPDelRequest g' = staticIPDelRequest g \<and>
     inDev g' = inDev g \<and> outDev g' = outDev g \<and> gotExit g' = gotExit g"
proof (induction "is" arbitrary: ps g)
  case (Cons i "is")
  from Cons.prems(4) obtain p ps' where ps: "ps = p # ps'" by (cases ps) auto
  have "um_find (heap g) p = None" using Cons.prems(3) ps by simp
  from addUserInfo_ok [OF Cons.prems(1) this, of i] obtain g1 where
    1: "addUserInfo (Some p) i g = Inr g1" "gateway_ok g1" "registered g1 = registered g"
      "requested g1 = requested g @ [i]" by blast
  note frame = addUserInfo_frame [OF 1(1)]
  have "um_find (heap g1) q = None" if "q \<in> set ps'" for q
    by (rule frame(7)) (use Cons.prems(2,3) ps that in auto)
  then have "\<forall>q\<in>set ps'. um_find (heap g1) q = None" by blast
  from Cons.IH [OF 1(2) _ this] Cons.prems(2,4) ps obtain g2 where
    "add_users (map Some ps') is g1 = Inr g2 \<and> gateway_ok g2 \<and> registered g2 = registered g1 \<and>
     requested g2 = requested g1 @ is \<and> staticIPMap g2 = staticIPMap g1 \<and>
     staticIPAddRequest g2 = staticIPAddRequest g1 \<and> staticIPDelRequest g2 = staticIPDelRequest g1 \<and>
     inDev g2 = inDev g1 \<and> outDev g2 = outDev g1 \<and> gotExit g2 = gotExit g1" by auto
  then show ?case using 1 frame(1-6) ps by (intro exI [of _ g2]) simp
qed simp

text \<open>The environment lets the program start: nothing fails and there is a block for every user.\<close>

definition opens :: "dev_env \<Rightarrow> bool" where
  "opens e \<longleftrightarrow> ret_socket e \<ge> 0 \<and> ret_gifflags e \<ge> 0 \<and> ret_sifflags e \<ge> 0 \<and> ret_sifmtu e \<ge> 0 \<and>
     ret_gifmtu e \<ge> 0 \<and> ret_gifindex e \<ge> 0 \<and> ret_bind e \<ge> 0"

definition start_ok :: "start_env \<Rightarrow> nat \<Rightarrow> bool" where
  "start_ok se n \<longleftrightarrow> se_sql_err se = None \<and> se_db_evbase se \<and> se_gw_evbase se \<and> (\<forall>k. se_db_fds se k \<ge> 0) \<and>
     (\<forall>k. se_gw_fds se k \<ge> 0) \<and> opens (se_in se) \<and> opens (se_out se) \<and> \<not> se_static_err se \<and> \<not> se_user_err se \<and>
     (\<exists>ps. se_blocks se = map Some ps \<and> distinct ps \<and> n \<le> length ps)"

definition names_ok :: "options \<Rightarrow> bool" where
  "names_ok o1 \<longleftrightarrow> (\<forall>s\<in>{db_user o1, db_pass o1, db_name o1}. \<exists>t. s = Some t \<and> length t < 255) \<and>
     in_dev o1 \<noteq> None \<and> out_dev o1 \<noteq> None"

definition tables_readable :: "static_ip_row list \<Rightarrow> user_row list \<Rightarrow> bool" where
  "tables_readable statics users \<longleftrightarrow> list_all (\<lambda>r. readable (sr_mac r)) statics \<and>
     list_all (\<lambda>u. ur_ip u \<noteq> None \<longrightarrow> readable (ur_mac u)) users"

definition loaded_users :: "options \<Rightarrow> user_row list \<Rightarrow> userInfo list" where
  "loaded_users o1 users = map (user_of (word_of_int (opt_timeout o1))) (filter (\<lambda>u. ur_ip u \<noteq> None) users)"

lemma Device_opened:
  assumes "opens e"
  shows "Device_new e name rxs =
    ([Call_socket (ret_socket e), Call_SIOCGIFFLAGS, Call_SIOCSIFFLAGS promisc_flags, Call_SIOCSIFMTU MY_MTU,
      Call_SIOCGIFMTU, Call_SIOCGIFINDEX, Call_getsockopt, Call_getsockopt, Call_bind (if_index e)],
     Inr \<lparr>sock = ret_socket e, devID = if_index e, prevFlag = old_flags e, devName = take IFNAMSIZ name,
           rx = rxs, tx = []\<rparr>)"
  using assms by (simp add: opens_def Device_new_def Let_def)

text \<open>A device whose socket and saved flags are those of its opening.\<close>

definition still_open :: "dev_env \<Rightarrow> device \<Rightarrow> bool" where
  "still_open e d \<longleftrightarrow> sock d = ret_socket e \<and> prevFlag d = old_flags e"

lemma Device_opens:
  assumes "opens e"
  shows "\<exists>calls d. Device_new e name rxs = (calls, Inr d) \<and> rx d = rxs \<and> still_open e d"
  by (simp add: Device_opened [OF assms] still_open_def)

lemma eventfds_ok: "\<forall>fd\<in>set fds. fd \<ge> 0 \<Longrightarrow> eventfds fds = (map Sys_eventfd fds, Inr ())"
  by (induction fds) auto

lemma Database_opens:
  assumes "start_ok se n"
  shows "Database_open se a b c gw_ip netmask dns tmo statics users =
    (sql_setup @ map (Sys_eventfd \<circ> se_db_fds se) [0, 1, 2] @
       [Event_base_new, Mutex_init M_createDHCPRequestLock, Mutex_init M_updateTimeLock] @
       map (Event_new \<circ> se_db_fds se) [0, 1, 2],
     Inr (Database_new gw_ip netmask dns tmo statics users))"
proof -
  have "eventfds (map (se_db_fds se) [0, 1, 2]) = (map Sys_eventfd (map (se_db_fds se) [0, 1, 2]), Inr ())"
    by (rule eventfds_ok) (use assms in \<open>simp add: start_ok_def\<close>)
  then show ?thesis using assms by (simp add: Database_open_def start_ok_def)
qed

lemma Gateway_opens_calls:
  assumes "start_ok se n" and "Device_new (se_in se) i (se_in_rx se) = (c1, Inr d1)"
    and "Device_new (se_out se) o2 (se_out_rx se) = (c2, Inr d2)"
  shows "Gateway_open se (Some i) (Some o2) =
    (map Sys_dev (c1 @ c2) @ map Mutex_init gateway_locks @ map (Sys_eventfd \<circ> se_gw_fds se) [0, 1, 2, 3, 4, 5] @
       [Event_base_new] @ map (Event_new \<circ> se_gw_fds se) [0, 1, 2, 3, 4, 5],
     Inr (Gateway_new d1 d2))"
proof -
  have "eventfds (map (se_gw_fds se) [0, 1, 2, 3, 4, 5]) =
      (map Sys_eventfd (map (se_gw_fds se) [0, 1, 2, 3, 4, 5]), Inr ())"
    by (rule eventfds_ok) (use assms(1) in \<open>simp add: start_ok_def\<close>)
  then show ?thesis using assms by (simp add: Gateway_open_def start_ok_def Let_def)
qed

lemma Gateway_opens:
  assumes "start_ok se n" and "names_ok o1"
  shows "\<exists>dev1 dev2. snd (Gateway_open se (in_dev o1) (out_dev o1)) = Inr (Gateway_new dev1 dev2) \<and>
    rx dev1 = se_in_rx se \<and> rx dev2 = se_out_rx se \<and> still_open (se_in se) dev1 \<and> still_open (se_out se) dev2"
proof -
  obtain i o2 where names: "in_dev o1 = Some i" "out_dev o1 = Some o2" using assms(2) by (auto simp: names_ok_def)
  have "opens (se_in se)" "opens (se_out se)" using assms(1) by (simp_all add: start_ok_def)
  then obtain c1 d1 c2 d2 where "Device_new (se_in se) i (se_in_rx se) = (c1, Inr d1)" "rx d1 = se_in_rx se"
    "still_open (se_in se) d1" "Device_new (se_out se) o2 (se_out_rx se) = (c2, Inr d2)" "rx d2 = se_out_rx se"
    "still_open (se_out se) d2"
    using Device_opens [of "se_in se" i "se_in_rx se"] Device_opens [of "se_out se" o2 "se_out_rx se"] by blast
  then show ?thesis using Gateway_opens_calls [OF assms(1)] names by auto
qed

lemma load_tables_steps:
  assumes "start_ok se n" and "tables_readable statics users" and "se_blocks se = map Some ps"
    and "static_ip d = statics" and "user d = users"
  shows "load_tables se o1 d g = add_users (map Some ps) (loaded_users o1 users) (add_statics (map static_pair statics) g)"
proof -
  have "list_all (\<lambda>u. readable (ur_mac u)) (filter (\<lambda>u. ur_ip u \<noteq> None) users)"
    using assms(2) by (auto simp: tables_readable_def list_all_iff)
  from user_rows_ok [OF this, of "word_of_int (opt_timeout o1)"] assms show ?thesis
    by (simp add: load_tables_def getAllStaticIP_def getAllUser_def selectAllUser_def static_ip_rows_ok
        tables_readable_def start_ok_def loaded_users_def Let_def)
qed

lemma start_loads:
  assumes se: "start_ok se (length users)" and names: "names_ok o1" and tabs: "tables_readable statics users"
  shows "\<exists>g. start se o1 statics users =
      Inr (Database_new (opt_gatewayIP o1) (opt_subnetMask o1) (opt_dnsList o1) (word_of_int (opt_timeout o1))
             statics users, g) \<and>
    gateway_ok g \<and> registered g = Map.empty \<and> staticIPMap g = um_empty \<and>
    requests (staticIPAddRequest g) = map static_pair statics \<and> requests (staticIPDelRequest g) = [] \<and>
    requested g = loaded_users o1 users \<and> rx (inDev g) = se_in_rx se \<and> rx (outDev g) = se_out_rx se \<and> \<not> gotExit g \<and>
    still_open (se_in se) (inDev g) \<and> still_open (se_out se) (outDev g)"
proof -
  let ?d = "Database_new (opt_gatewayIP o1) (opt_subnetMask o1) (opt_dnsList o1) (word_of_int (opt_timeout o1))
    statics users"
  from Gateway_opens [OF se names] obtain dev1 dev2 where
    gw: "snd (Gateway_open se (in_dev o1) (out_dev o1)) = Inr (Gateway_new dev1 dev2)"
      "rx dev1 = se_in_rx se" "rx dev2 = se_out_rx se" "still_open (se_in se) dev1" "still_open (se_out se) dev2"
    by blast
  let ?g0 = "Gateway_new dev1 dev2"
  let ?g1 = "add_statics (map static_pair statics) ?g0"
  note g0 = Gateway_new_ok [of dev1 dev2]
  note g1 = add_statics_ok [OF g0, of "map static_pair statics"]
  obtain ps where ps: "se_blocks se = map Some ps" "distinct ps" "length users \<le> length ps"
    using se by (auto simp: start_ok_def)
  have new: "registered ?g0 = Map.empty" "requested ?g0 = []" "heap ?g0 = um_empty" "staticIPMap ?g0 = um_empty"
    "requests (staticIPAddRequest ?g0) = []" "requests (staticIPDelRequest ?g0) = []" "\<not> gotExit ?g0"
    "inDev ?g0 = dev1" "outDev ?g0 = dev2"
    by (simp_all add: Gateway_new_def registered_def requested_def user_view_pair blocks_def eq.contents_empty
        um.find_empty fun_eq_iff)
  have "length (loaded_users o1 users) \<le> length ps"
    using le_trans [OF length_filter_le ps(3)] by (simp add: loaded_users_def)
  moreover have "\<forall>p\<in>set ps. um_find (heap ?g1) p = None" by (simp add: add_statics_queue new um.find_empty)
  ultimately obtain g2 where g2: "add_users (map Some ps) (loaded_users o1 users) ?g1 = Inr g2" "gateway_ok g2"
    "registered g2 = registered ?g1" "requested g2 = requested ?g1 @ loaded_users o1 users"
    "staticIPMap g2 = staticIPMap ?g1" "staticIPAddRequest g2 = staticIPAddRequest ?g1"
    "staticIPDelRequest g2 = staticIPDelRequest ?g1" "inDev g2 = inDev ?g1" "outDev g2 = outDev ?g1"
    "gotExit g2 = gotExit ?g1"
    using add_users_ok [OF g1(1) ps(2), of "loaded_users o1 users"] by blast
  have "load_tables se o1 ?d ?g0 = Inr g2"
    using load_tables_steps [OF se tabs ps(1), of ?d] g2(1) by (simp add: Database_new_def)
  moreover have "snd (Database_open se a b c (opt_gatewayIP o1) (opt_subnetMask o1) (opt_dnsList o1)
      (word_of_int (opt_timeout o1)) statics users) = Inr ?d" for a b c
    using Database_opens [OF se] by simp
  moreover have "\<exists>t. c_string 255 (db_user o1) = Inr t" "\<exists>t. c_string 255 (db_pass o1) = Inr t"
    "\<exists>t. c_string 255 (db_name o1) = Inr t"
    using names by (auto simp: names_ok_def c_string_def)
  ultimately have "start se o1 statics users = Inr (?d, g2)" using gw(1) by (auto simp: start_def)
  then show ?thesis using g2 g1 gw new by (intro exI [of _ g2]) (simp add: add_statics_queue eq.contents_pushes)
qed

section \<open>The first pass of the event loop\<close>

lemma fold_statics: "fold (\<lambda>(ip, mac) f. f(s_addr ip := Some mac)) xs m = m ++ map_of (rev (map (\<lambda>(ip, mac). (s_addr ip, mac)) xs))"
  by (induction xs arbitrary: m) (auto simp: fun_eq_iff map_add_def split: option.splits)

lemma fold_users: "fold put_user us m = m ++ map_of (rev (map (\<lambda>i. (s_addr (ui_ip i), i)) us))"
  by (induction us arbitrary: m) (auto simp: put_user_def fun_eq_iff map_add_def split: option.splits)

lemma first_statics:
  assumes "gateway_ok g"
  shows "\<exists>g'. event_step H_add_static g = Inr g' \<and> gateway_ok g' \<and> registered g' = registered g \<and>
    requested g' = requested g \<and> statics_of g' = statics_of g ++
      map_of (rev (map (\<lambda>(ip, mac). (s_addr ip, mac)) (requests (staticIPAddRequest g))))"
proof (cases "ready g H_add_static")
  case True
  from add_static_ip_ok [OF assms] obtain m where
    "add_static_ip g = Inr (g\<lparr>staticIPAddRequest := eq_empty, staticIPMap := m\<rparr>)"
    "gateway_ok (g\<lparr>staticIPAddRequest := eq_empty, staticIPMap := m\<rparr>)"
    "um_find m = fold (\<lambda>(ip, mac) f. f(s_addr ip := Some mac)) (requests (staticIPAddRequest g)) (um_find (staticIPMap g))"
    by blast
  with True show ?thesis
    by (auto simp: event_step_def statics_of_def registered_def requested_def fold_statics)
next
  case False
  then have "requests (staticIPAddRequest g) = []" using assms by (simp add: gateway_ok_def eq_ok_def)
  with False assms show ?thesis by (simp add: event_step_def)
qed

lemma first_users:
  assumes "gateway_ok g"
  shows "\<exists>g'. event_step H_add_user g = Inr g' \<and> gateway_ok g' \<and> statics_of g' = statics_of g \<and>
    staticIPAddRequest g' = staticIPAddRequest g \<and>
    registered g' = registered g ++ map_of (rev (map (\<lambda>i. (s_addr (ui_ip i), i)) (requested g)))"
proof (cases "ready g H_add_user")
  case True
  from add_user_ok [OF assms] obtain users hp where
    "add_user g = Inr (g\<lparr>userAddRequest := eq_empty, userMap := users, heap := hp\<rparr>)"
    "gateway_ok (g\<lparr>userAddRequest := eq_empty, userMap := users, heap := hp\<rparr>)"
    "user_view (users, hp) = fold put_user (requested g) (registered g)" by blast
  with True show ?thesis
    by (auto simp: event_step_def statics_of_def registered_def [of "_\<lparr>heap := _\<rparr>"] fold_users)
next
  case False
  then have "requested g = []" using assms by (simp add: gateway_ok_def eq_ok_def requested_def blocks_def)
  with False assms show ?thesis by (simp add: event_step_def)
qed

text \<open>
  C14: The tables arrive. When the command line is accepted, the database server is found, nothing fails
  and every hardware address in the tables is readable, the program starts, and after the first pass of the event loop, whichever of the two handlers
  runs first, the gateway's static addresses are exactly the rows of the address table and its users
  exactly the rows of the user table with an address, later rows winning over earlier ones with the
  same address.
\<close>

theorem startup_loads_tables:
  assumes "start_ok se (length users)" and "names_ok o1" and "tables_readable statics users"
    and "order = [H_add_static, H_add_user] \<or> order = [H_add_user, H_add_static]"
    and "read_options (getopt_all argv) = Inr o1" and "daemonize o1 \<longrightarrow> pid = 0 \<and> 0 \<le> sid"
    and "\<exists>k<30. mysqld_found (look k)"
  shows "\<exists>d g g'. main argv pid sid look se statics users = Inr (d, g) \<and> event_base_loop order g = Inr g' \<and> gateway_ok g' \<and>
    static_ip d = statics \<and> user d = users \<and>
    statics_of g' = map_of (rev (map (\<lambda>r. (inet_addr (sr_ip r), column_mac (sr_mac r))) statics)) \<and>
    registered g' = map_of (rev (map (\<lambda>i. (s_addr (ui_ip i), i)) (loaded_users o1 users)))"
proof -
  from start_loads [OF assms(1-3)] obtain d g where
    g: "start se o1 statics users = Inr (d, g)" "static_ip d = statics" "user d = users" "gateway_ok g"
      "registered g = Map.empty" "staticIPMap g = um_empty" "requested g = loaded_users o1 users"
      "requests (staticIPAddRequest g) = map static_pair statics"
    by (fastforce simp: Database_new_def)
  have none: "statics_of g = Map.empty" using g(6) by (simp add: statics_of_def um.find_empty fun_eq_iff)
  have pairs: "(\<lambda>(ip, mac). (s_addr ip, mac)) \<circ> static_pair = (\<lambda>r. (inet_addr (sr_ip r), column_mac (sr_mac r)))"
    by (simp add: fun_eq_iff static_pair_def lease_addr_def)
  let ?S = "map_of (rev (map (\<lambda>r. (inet_addr (sr_ip r), column_mac (sr_mac r))) statics))"
  let ?U = "map_of (rev (map (\<lambda>i. (s_addr (ui_ip i), i)) (loaded_users o1 users)))"
  have "\<exists>g'. foldR event_step order g = Inr g' \<and> gateway_ok g' \<and> statics_of g' = ?S \<and> registered g' = ?U"
    using assms(4)
  proof
    assume o: "order = [H_add_static, H_add_user]"
    from first_statics [OF g(4)] obtain g1 where
      "event_step H_add_static g = Inr g1" "gateway_ok g1" "registered g1 = Map.empty"
      "requested g1 = loaded_users o1 users" "statics_of g1 = ?S" using g(5,7,8) none pairs by auto
    with first_users [of g1] show ?thesis by (auto simp: o)
  next
    assume o: "order = [H_add_user, H_add_static]"
    from first_users [OF g(4)] obtain g1 where
      "event_step H_add_user g = Inr g1" "gateway_ok g1" "registered g1 = ?U" "statics_of g1 = Map.empty"
      "requests (staticIPAddRequest g1) = map static_pair statics" using g(5,7,8) none by auto
    with first_statics [of g1] pairs show ?thesis by (auto simp: o)
  qed
  moreover have "main argv pid sid look se statics users = Inr (d, g)"
    using assms(5,6) wait_server_found(1) [OF assms(7)] g(1) by (auto simp: main_def become_daemon_def)
  ultimately show ?thesis using g(2,3) by (auto simp: event_base_loop_steps)
qed

definition up :: dev_env where
  "up = \<lparr>ret_socket = 5, ret_gifflags = 0, old_flags = 0, ret_sifflags = 0, ret_sifmtu = 0, ret_gifmtu = 0,
     ret_gifindex = 0, if_index = 3, ret_bind = 0\<rparr>"

definition good_start :: start_env where
  "good_start = \<lparr>se_sql_err = None, se_db_fds = (\<lambda>_. 7), se_db_evbase = True, se_in = up, se_out = up,
     se_in_rx = [], se_out_rx = [], se_gw_fds = (\<lambda>_. 8), se_gw_evbase = True, se_static_err = False,
     se_user_err = False, se_blocks = [Some 1, Some 2]\<rparr>"

definition good_line :: "getopt list" where
  "good_line = [long_opt 1 ''10.0.0.1'', long_opt 2 ''255.0.0.0'', long_opt 3 ''8.8.8.8'', short_opt CHR ''i'' ''eth0'',
     short_opt CHR ''o'' ''eth1'', short_opt CHR ''u'' ''gw'', short_opt CHR ''p'' ''secret'']"

definition good_options :: options where
  "good_options = options_start\<lparr>neccessary := 0, in_dev := Some ''eth0'', out_dev := Some ''eth1'',
     db_user := Some ''gw'', db_pass := Some ''secret'', opt_gatewayIP := lease_addr ''10.0.0.1'',
     opt_subnetMask := lease_addr ''255.0.0.0'', opt_dnsList := [lease_addr ''8.8.8.8'']\<rparr>"

definition good_argv :: "string list" where
  "good_argv = [''--gateway'', ''10.0.0.1'', ''--subnet=255.0.0.0'', ''--dns'', ''8.8.8.8'', ''-ieth0'', ''-o'', ''eth1'',
     ''--db-user'', ''gw'', ''-p'', ''secret'']"

lemma good_argv_words: "getopt_all good_argv = good_line"
  by code_simp

lemma good_line_read: "read_options (getopt_all good_argv) = Inr good_options"
  unfolding good_argv_words by (simp add: read_options_def good_line_def option_step_def long_opt_def short_opt_def decr_def strncpy_def
      options_start_def good_options_def lease_addr_def sizes Let_def)

definition good_row :: static_ip_row where
  "good_row = \<lparr>sr_ip = ''10.0.0.9'', sr_mac = mac_text mac_new, sr_isStatic = False\<rparr>"

definition good_user :: user_row where
  "good_user = \<lparr>ur_user = ''old'', ur_ip = Some ''10.0.0.9'', ur_mac = mac_text mac_old, ur_accessed = 5\<rparr>"

lemma column_mac_text: "readable (mac_text m)" "column_mac (mac_text m) = m"
  using readMAC_mac_text [of m "[]"] by (simp_all add: readable_def column_mac_def del: mac_text.simps)

lemma good_start_ok:
  "start_ok good_start (length [good_user])" "names_ok good_options" "tables_readable [good_row] [good_user]"
proof -
  show "start_ok good_start (length [good_user])"
    unfolding start_ok_def by (simp add: good_start_def opens_def up_def) (intro exI [of _ "[1, 2]"], simp)
qed (simp_all add: names_ok_def good_options_def options_start_def strncpy_def tables_readable_def good_row_def
    good_user_def column_mac_text)

theorem startup_loads_tables_witness:
  "\<exists>d g g'. main good_argv 0 0 (\<lambda>k. \<lparr>pf_opens = k > 2, pf_count = 1, pf_pid = 99\<rparr>) good_start [good_row] [good_user] =
      Inr (d, g) \<and>
    event_base_loop [H_add_user, H_add_static] g = Inr g' \<and>
    statics_of g' (inet_addr ''10.0.0.9'') = Some mac_new \<and>
    registered g' (inet_addr ''10.0.0.9'') = Some (user_of 10000 good_user)"
proof -
  let ?look = "\<lambda>k :: nat. \<lparr>pf_opens = k > 2, pf_count = 1, pf_pid = 99\<rparr>"
  have rows: "loaded_users good_options [good_user] = [user_of 10000 good_user]"
    "s_addr (ui_ip (user_of 10000 good_user)) = inet_addr ''10.0.0.9''"
    "sr_ip good_row = ''10.0.0.9''" "column_mac (sr_mac good_row) = mac_new"
    by (simp_all add: loaded_users_def good_options_def options_start_def good_user_def user_of_def lease_addr_def
        good_row_def column_mac_text)
  have order: "[H_add_user, H_add_static] = [H_add_static, H_add_user] \<or>
      [H_add_user, H_add_static] = [H_add_user, H_add_static]" by simp
  have "mysqld_found (?look 3)" by (simp add: mysqld_found_def)
  moreover have "(3 :: nat) < 30" by simp
  ultimately have found: "\<exists>k<30. mysqld_found (?look k)" by blast
  have "daemonize good_options \<longrightarrow> (0 :: int) = 0 \<and> (0 :: int) \<le> 0" by simp
  from startup_loads_tables [OF good_start_ok order good_line_read this found] rows show ?thesis by fastforce
qed

end
