(* ===== verification/System.thy ===== *)
theory System
  imports Main_Props
begin

text \<open>
  The running program: the forwarding thread, the database thread, the end of \<^verbatim>\<open>main\<close>, signals, and the other
  clients of the database server, interleaved. The two threads share the request channels only, each access
  under the channel's mutex, so a step is as long as the code between two such accesses that another thread could
  notice: one frame, one event handler, the emptying of a queue, or one request of a handler. How many frames
  come before the event library runs is left open, which allows more than the bursts of the code do. The
  tables belong to the server, not to the program: another client may replace both between any two steps. What
  the edits and the allocator are relied on to respect is a parameter of reachability, so each property names its
  rely. An invariant of all states reachable under it shows that no interleaving leads to a fault.
\<close>

section \<open>States and steps\<close>

text \<open>Where the forwarding thread is: at its sockets, or in the event library with these handlers to run.\<close>

datatype mode = Forwarding | Dispatching "handler list"

text \<open>Where \<^verbatim>\<open>main\<close> is: waiting for both threads, or behind the first or the second of its two deletions.\<close>

datatype main_pc = Joining | Gateway_deleted | All_deleted

record system =
  srv :: server
  mode :: mode
  main_at :: main_pc
  dhcp_work :: "dhcp_request list"
  update_work :: "update_time list"

text \<open>The labels carry what a step gets from outside: the time and memory for a frame, the order in which the
  library reports the ready handlers, the environment of a DHCP request, whether a statement throws, the
  tables another client of the server leaves.\<close>

datatype label = Read_inside u64 "byte list option" | Read_outside "byte list option"
  | Poll "handler list" | Dispatch
  | Take_dhcp | Serve_dhcp dhcp_env | Take_updates | Serve_update bool | Db_term | Signal
  | Main_delete | Edit "static_ip_row list" "user_row list"

definition set_tables :: "static_ip_row list \<Rightarrow> user_row list \<Rightarrow> server \<Rightarrow> server" where
  "set_tables statics users v = v\<lparr>db := (db v)\<lparr>static_ip := statics, user := users\<rparr>\<rparr>"

definition db_idle :: "system \<Rightarrow> bool" where
  "db_idle s \<longleftrightarrow> dhcp_work s = [] \<and> update_work s = [] \<and> \<not> db_gotExit (db (srv s))"

fun enabled :: "label \<Rightarrow> system \<Rightarrow> bool" where
  "enabled (Read_inside now mem) s \<longleftrightarrow> mode s = Forwarding \<and> \<not> gotExit (gw (srv s))"
| "enabled (Read_outside mem) s \<longleftrightarrow> mode s = Forwarding \<and> \<not> gotExit (gw (srv s))"
| "enabled (Poll hs) s \<longleftrightarrow> mode s = Forwarding \<and> \<not> gotExit (gw (srv s)) \<and> distinct hs \<and>
     set hs = {h. ready (gw (srv s)) h}"
| "enabled Dispatch s \<longleftrightarrow> mode s \<noteq> Forwarding"
| "enabled Take_dhcp s \<longleftrightarrow> db_idle s \<and> pending (createDHCPRequestQueue (db (srv s))) > 0"
| "enabled (Serve_dhcp e) s \<longleftrightarrow> dhcp_work s \<noteq> []"
| "enabled Take_updates s \<longleftrightarrow> db_idle s \<and> pending (updateTimeQueue (db (srv s))) > 0"
| "enabled (Serve_update err) s \<longleftrightarrow> update_work s \<noteq> []"
| "enabled Db_term s \<longleftrightarrow> db_idle s \<and> db_termEvent (db (srv s)) > 0"
| "enabled Signal s \<longleftrightarrow> True"
| "enabled Main_delete s \<longleftrightarrow>
     (case main_at s of
        Joining \<Rightarrow> mode s = Forwarding \<and> gotExit (gw (srv s)) \<and> dhcp_work s = [] \<and> update_work s = [] \<and>
          db_gotExit (db (srv s))
      | Gateway_deleted \<Rightarrow> True
      | All_deleted \<Rightarrow> False)"
| "enabled (Edit statics users) s \<longleftrightarrow> True"

definition with_gw :: "gateway \<Rightarrow> server \<Rightarrow> server" where
  "with_gw g v = v\<lparr>gw := g\<rparr>"

definition with_both :: "database \<times> gateway \<Rightarrow> server \<Rightarrow> server" where
  "with_both dg v = v\<lparr>gw := snd dg, db := fst dg\<rparr>"

fun run :: "sql_env \<Rightarrow> label \<Rightarrow> system \<Rightarrow> system result" where
  "run env (Read_inside now mem) s = mapR (\<lambda>(go, v). s\<lparr>srv := v\<rparr>) (in_step mem now (srv s))"
| "run env (Read_outside mem) s = mapR (\<lambda>(go, v). s\<lparr>srv := v\<rparr>) (out_step mem (srv s))"
| "run env (Poll hs) s = Inr (s\<lparr>mode := Dispatching hs\<rparr>)"
| "run env Dispatch s =
     (case mode s of
        Dispatching (h # hs) \<Rightarrow>
          mapR (\<lambda>g. s\<lparr>srv := with_gw g (srv s), mode := Dispatching hs\<rparr>) (event_step h (gw (srv s)))
      | _ \<Rightarrow> Inr (s\<lparr>mode := Forwarding\<rparr>))"
| "run env Take_dhcp s =
     mapR (\<lambda>(q, temp). s\<lparr>srv := (srv s)\<lparr>db := (db (srv s))\<lparr>createDHCPRequestQueue := q\<rparr>\<rparr>, dhcp_work := temp\<rparr>)
       (eq_handle (\<lambda>r temp. Inr (temp @ [r])) (createDHCPRequestQueue (db (srv s))) [])"
| "run env (Serve_dhcp e) s =
     (case dhcp_work s of
        [] \<Rightarrow> Inr s
      | r # rs \<Rightarrow>
          mapR (\<lambda>dg. s\<lparr>srv := with_both dg (srv s), dhcp_work := rs\<rparr>)
            (create_dhcp_one env e r (db (srv s), gw (srv s))))"
| "run env Take_updates s =
     mapR (\<lambda>(q, temp). s\<lparr>srv := (srv s)\<lparr>db := (db (srv s))\<lparr>updateTimeQueue := q\<rparr>\<rparr>, update_work := temp\<rparr>)
       (eq_handle (\<lambda>r temp. Inr (temp @ [r])) (updateTimeQueue (db (srv s))) [])"
| "run env (Serve_update err) s =
     (case update_work s of
        [] \<Rightarrow> Inr s
      | r # rs \<Rightarrow>
          Inr (s\<lparr>srv := with_both (update_time_one env err r (db (srv s), gw (srv s))) (srv s), update_work := rs\<rparr>))"
| "run env Db_term s = Inr (s\<lparr>srv := (srv s)\<lparr>db := terminate_database (db (srv s))\<rparr>\<rparr>)"
| "run env Signal s =
     mapR (\<lambda>dg. s\<lparr>srv := with_both dg (srv s)\<rparr>)
       (exit_handle (if main_at s = All_deleted then Deleted else Live (db (srv s)))
         (if main_at s = Joining then Live (gw (srv s)) else Deleted))"
| "run env Main_delete s = Inr (s\<lparr>main_at := (if main_at s = Joining then Gateway_deleted else All_deleted)\<rparr>)"
| "run env (Edit statics users) s = Inr (s\<lparr>srv := set_tables statics users (srv s)\<rparr>)"

text \<open>What is relied on in a step: the allocator answers, and another client puts no address into the address table
  that the gateway has not loaded at its start. The edits are free otherwise: they may remove or change any row
  of both tables, and hand out leases of their own.\<close>

definition memory_granted :: "label \<Rightarrow> system \<Rightarrow> bool" where
  "memory_granted l s \<longleftrightarrow>
     (case l of
        Read_inside now mem \<Rightarrow> icmp_block mem
      | Read_outside mem \<Rightarrow> icmp_block mem
      | Serve_dhcp e \<Rightarrow> memory_ok e (gw (srv s))
      | _ \<Rightarrow> True)"

definition edit_granted :: "label \<Rightarrow> system \<Rightarrow> bool" where
  "edit_granted l s \<longleftrightarrow>
     (case l of
        Edit statics users \<Rightarrow> list_all (\<lambda>r. known (gw (srv s)) (inet_addr (sr_ip r))) statics
      | _ \<Rightarrow> True)"

definition granted :: "label \<Rightarrow> system \<Rightarrow> bool" where
  "granted l s \<longleftrightarrow> memory_granted l s \<and> edit_granted l s"

lemma granted_simps [simp]:
  "granted (Read_inside now mem) s \<longleftrightarrow> icmp_block mem"
  "granted (Read_outside mem) s \<longleftrightarrow> icmp_block mem"
  "granted (Serve_dhcp e) s \<longleftrightarrow> memory_ok e (gw (srv s))"
  "granted (Edit statics users) s \<longleftrightarrow> list_all (\<lambda>r. known (gw (srv s)) (inet_addr (sr_ip r))) statics"
  "granted (Poll hs) s" "granted Dispatch s" "granted Take_dhcp s" "granted Take_updates s"
  "granted (Serve_update err) s" "granted Db_term s" "granted Signal s" "granted Main_delete s"
  by (simp_all add: granted_def memory_granted_def edit_granted_def)

text \<open>States reachable by steps that satisfy a rely.\<close>

inductive reachable_by :: "(label \<Rightarrow> system \<Rightarrow> bool) \<Rightarrow> sql_env \<Rightarrow> system \<Rightarrow> system \<Rightarrow> bool" for rely env s0 where
  reach_start: "reachable_by rely env s0 s0"
| reach_step: "reachable_by rely env s0 s \<Longrightarrow> enabled l s \<Longrightarrow> rely l s \<Longrightarrow> run env l s = Inr s' \<Longrightarrow>
    reachable_by rely env s0 s'"

abbreviation reachable :: "sql_env \<Rightarrow> system \<Rightarrow> system \<Rightarrow> bool" where
  "reachable \<equiv> reachable_by granted"

lemma reachable_by_mono:
  assumes "reachable_by rely env s0 s" and "\<And>l s. rely l s \<Longrightarrow> rely' l s"
  shows "reachable_by rely' env s0 s"
  using assms(1) by induction (auto intro: reachable_by.intros assms(2))

section \<open>The invariant\<close>

text \<open>Equal texts of the table stand for the same address.\<close>

definition addr_collation :: "sql_env \<Rightarrow> bool" where
  "addr_collation env \<longleftrightarrow> (\<forall>x y. collate env x y \<longrightarrow> inet_addr x = inet_addr y)"

text \<open>Every address of the table is known to the gateway.\<close>

definition table_known :: "server \<Rightarrow> bool" where
  "table_known v \<longleftrightarrow> (\<forall>r\<in>set (static_ip (db v)). known (gw v) (inet_addr (sr_ip r)))"

definition base_ok :: "server \<Rightarrow> bool" where
  "base_ok v \<longleftrightarrow> fed_ok (gw v) \<and> channels_ok (db v) \<and> buffer_ok (inPacket v) \<and> buffer_ok (outPacket v) \<and>
     wire_ok (inDev (gw v)) \<and> wire_ok (outDev (gw v))"

definition stage_ok :: "mode \<Rightarrow> gateway \<Rightarrow> bool" where
  "stage_ok m g \<longleftrightarrow>
     (case m of
        Forwarding \<Rightarrow> users_static g
      | Dispatching hs \<Rightarrow> requests (staticIPAddRequest g) \<noteq> [] \<longrightarrow> H_add_static \<in> set hs)"

definition sys_ok :: "system \<Rightarrow> bool" where
  "sys_ok s \<longleftrightarrow> base_ok (srv s) \<and> stage_ok (mode s) (gw (srv s)) \<and> table_known (srv s) \<and>
     length (dnsList (db (srv s))) \<le> 299"

lemma server_ok_base: "server_ok v \<longleftrightarrow> base_ok v \<and> users_static (gw v)"
  by (auto simp: server_ok_def base_ok_def)

lemma known_mono:
  "staticIPMap g' = staticIPMap g \<Longrightarrow> staticIPAddRequest g' = staticIPAddRequest g \<Longrightarrow> known g' k = known g k"
  by (simp add: known_def statics_of_def)

text \<open>Steps at the sockets.\<close>

lemma forward_ok:
  assumes ok: "sys_ok s" and "mode s = Forwarding" and "server_ok v" and "same_exit (srv s) v"
  shows "sys_ok (s\<lparr>srv := v\<rparr>)"
proof -
  have "known (gw v) k = known (gw (srv s)) k" for k
    using assms(4) by (intro known_mono) (simp_all add: same_exit_def)
  then show ?thesis
    using assms by (simp add: sys_ok_def server_ok_base stage_ok_def table_known_def same_exit_def same_store_def)
qed

lemma read_steps_ok:
  assumes "sys_ok s" and "mode s = Forwarding" and "icmp_block mem"
  shows "\<exists>s'. run env (Read_inside now mem) s = Inr s' \<and> sys_ok s'"
    and "\<exists>s'. run env (Read_outside mem) s = Inr s' \<and> sys_ok s'"
proof -
  have ok: "server_ok (srv s)" using assms(1,2) by (simp add: sys_ok_def stage_ok_def server_ok_base)
  from in_step_ok [OF ok assms(3), of now] obtain go v where
    "in_step mem now (srv s) = Inr (go, v)" "server_ok v" "same_exit (srv s) v" by blast
  with forward_ok [OF assms(1,2)] show "\<exists>s'. run env (Read_inside now mem) s = Inr s' \<and> sys_ok s'" by simp
  from out_step_ok [OF ok assms(3)] obtain go v where
    "out_step mem (srv s) = Inr (go, v)" "server_ok v" "same_exit (srv s) v" by blast
  with forward_ok [OF assms(1,2)] show "\<exists>s'. run env (Read_outside mem) s = Inr s' \<and> sys_ok s'" by simp
qed

text \<open>Steps in the event library.\<close>

lemma poll_ok:
  assumes ok: "sys_ok s" and "set hs = {h. ready (gw (srv s)) h}"
  shows "sys_ok (s\<lparr>mode := Dispatching hs\<rparr>)"
proof -
  have "eq_ok (staticIPAddRequest (gw (srv s)))"
    using ok by (simp add: sys_ok_def base_ok_def fed_ok_def gateway_ok_def)
  then show ?thesis using assms by (auto simp: sys_ok_def stage_ok_def eq_ok_def)
qed

lemma dispatch_ok:
  assumes ok: "sys_ok s" and "mode s \<noteq> Forwarding"
  shows "\<exists>s'. run env Dispatch s = Inr s' \<and> sys_ok s'"
proof -
  let ?g = "gw (srv s)"
  have fed: "fed_ok ?g" using ok by (simp add: sys_ok_def base_ok_def)
  obtain hs where hs: "mode s = Dispatching hs" using assms(2) by (cases "mode s") auto
  show ?thesis
  proof (cases hs)
    case Nil
    have "requests (staticIPAddRequest ?g) = []" using ok hs Nil by (simp add: sys_ok_def stage_ok_def)
    then have "users_static ?g"
      using fed users_static_registered [of ?g] by (auto simp: fed_ok_def known_def)
    then show ?thesis using ok hs Nil by (simp add: sys_ok_def stage_ok_def)
  next
    case (Cons h hs')
    from event_step_ok [OF fed, of h] obtain g where
      g: "event_step h ?g = Inr g" "fed_ok g" "same_wires ?g g" "\<forall>k. known g k = known ?g k"
        "h = H_add_static \<or> requests (staticIPAddRequest ?g) = [] \<longrightarrow> requests (staticIPAddRequest g) = []" by blast
    have "stage_ok (Dispatching hs') g"
      using ok hs Cons g(5) by (auto simp: sys_ok_def stage_ok_def)
    then have "sys_ok (s\<lparr>srv := with_gw g (srv s), mode := Dispatching hs'\<rparr>)"
      using ok g(2-4) by (simp add: sys_ok_def base_ok_def with_gw_def same_wires_def wire_ok_def table_known_def)
    then show ?thesis using g(1) hs Cons by simp
  qed
qed

text \<open>Steps of the database thread that touch the gateway only through its channels.\<close>

definition db_effect :: "database \<Rightarrow> gateway \<Rightarrow> database \<Rightarrow> gateway \<Rightarrow> bool" where
  "db_effect d g d' g' \<longleftrightarrow> gateway_ok g' \<and> registered g' = registered g \<and> staticIPMap g' = staticIPMap g \<and>
     staticIPAddRequest g' = staticIPAddRequest g \<and> staticIPDelRequest g' = staticIPDelRequest g \<and>
     inDev g' = inDev g \<and> outDev g' = outDev g \<and> static_ip d' = static_ip d \<and> dnsList d' = dnsList d \<and>
     (\<exists>us. requested g' = requested g @ us \<and>
       (\<forall>i\<in>set us. \<exists>r\<in>set (static_ip d). s_addr (ui_ip i) = inet_addr (sr_ip r)))"

lemma db_effect_ok:
  assumes ok: "sys_ok s" and eff: "db_effect (db (srv s)) (gw (srv s)) d' g'"
    and "channels_ok d'"
  shows "sys_ok (s\<lparr>srv := with_both (d', g') (srv s)\<rparr>)"
proof -
  let ?g = "gw (srv s)"
  have kn: "known g' k = known ?g k" for k using eff by (intro known_mono) (simp_all add: db_effect_def)
  have fed: "fed_ok ?g" and tab: "table_known (srv s)" using ok by (simp_all add: sys_ok_def base_ok_def)
  have "known g' (s_addr (ui_ip i))" if "i \<in> set (requested g')" for i
    using that eff fed tab kn by (fastforce simp: db_effect_def fed_ok_def table_known_def)
  then have "fed_ok g'" using fed eff kn by (simp add: fed_ok_def db_effect_def)
  moreover have "users_static g' = users_static ?g"
    using users_static_registered [of g'] users_static_registered [of ?g] fed eff
    by (simp add: fed_ok_def db_effect_def statics_of_def)
  ultimately show ?thesis
    using ok assms(3) eff kn
    by (auto simp: sys_ok_def base_ok_def with_both_def stage_ok_def table_known_def db_effect_def split: mode.splits)
qed

lemma db_effect_del:
  "gateway_ok g \<Longrightarrow> static_ip d' = static_ip d \<Longrightarrow> dnsList d' = dnsList d \<Longrightarrow> db_effect d g d' (delUserInfo ip g)"
  "gateway_ok g \<Longrightarrow> static_ip d' = static_ip d \<Longrightarrow> dnsList d' = dnsList d \<Longrightarrow> db_effect d g d' g"
  "gateway_ok g \<Longrightarrow> static_ip d' = static_ip d \<Longrightarrow> dnsList d' = dnsList d \<Longrightarrow> db_effect d g d' (terminate g)"
  using channel_ops_ok(3) [of g ip] channel_ops_ok(4) [of g]
  by (simp_all add: db_effect_def delUserInfo_def terminate_def registered_def requested_def)

lemma update_time_one_keeps:
  assumes "update_time_one env err r (d, g) = (d', g')"
  shows "static_ip d' = static_ip d" and "dnsList d' = dnsList d" and "g' = g \<or> g' = delUserInfo (ut_ip r) g"
    and "channels_ok d' = channels_ok d" and "leases_ok env d' = leases_ok env d"
    and "db_termEvent d' = db_termEvent d" and "db_gotExit d' = db_gotExit d"
proof -
  let ?m = "printMAC (ut_mac r) [] 32"
  let ?f = "\<lambda>u. if collate env (ur_mac u) ?m then u\<lparr>ur_accessed := uint (ut_UTC r)\<rparr> else u"
  have d': "d' = d \<or> d' = d\<lparr>user := map ?f (user d)\<rparr>"
    using assms by (auto simp: update_time_one_def updateAccessTime_def Let_def split: if_split_asm)
  have same: "ur_mac (?f u) = ur_mac u" "ur_ip (?f u) = ur_ip u" for u by simp_all
  have "clash env (?f u) (?f v) = clash env u v" for u v
    by (cases "ur_ip v") (simp_all add: clash_def has_ip_def)
  then have "leases_ok env (d\<lparr>user := map ?f (user d)\<rparr>) = leases_ok env d"
    unfolding leases_ok_def by (simp add: sorted_wrt_map same)
  then show "leases_ok env d' = leases_ok env d" using d' by auto
  show "static_ip d' = static_ip d" "dnsList d' = dnsList d" "channels_ok d' = channels_ok d"
    "db_termEvent d' = db_termEvent d" "db_gotExit d' = db_gotExit d"
    using d' by (auto simp: channels_ok_def)
  show "g' = g \<or> g' = delUserInfo (ut_ip r) g"
    using assms by (auto simp: update_time_one_def Let_def split: if_split_asm prod.splits)
qed

lemma served_effect:
  assumes c: "addr_collation env" and served: "dhcp_served env e r (d, g) (d', g')" and ok: "gateway_ok g"
  shows "db_effect d g d' g'"
proof (cases "lease env (de_now e) (dr_mac r) d")
  case None
  then show ?thesis using served ok by (simp add: dhcp_served_def db_effect_del)
next
  case (Some x)
  then obtain a where l: "lease env (de_now e) (dr_mac r) d = Some (a, d')"
    using served by (cases x) (auto simp: dhcp_served_def)
  note conf = lease_config(3,5) [OF l]
  show ?thesis
  proof (cases "selectMACwithIP env a d' = []")
    case True
    then show ?thesis using served ok conf by (simp add: dhcp_served_def l db_effect_del)
  next
    case False
    then obtain p where q: "queues_answer e (admitted r (lease_addr a) d) p g g'"
      using served by (auto simp: dhcp_served_def l)
    from False obtain row where row: "row \<in> set (static_ip d)" "collate env (sr_ip row) a"
      by (auto simp: selectMACwithIP_def filter_empty_conv conf)
    then have "inet_addr a = inet_addr (sr_ip row)" using c by (simp add: addr_collation_def)
    with row(1) q conf show ?thesis
      by (auto simp: db_effect_def queues_answer_def admitted_def lease_info_def lease_addr_def)
  qed
qed

lemma serve_dhcp_ok:
  assumes ok: "sys_ok s" and c: "addr_collation env" and mem: "memory_ok e (gw (srv s))"
  shows "(\<exists>k. de_err e k) \<and> run env (Serve_dhcp e) s = Inl Exit \<or>
    (\<exists>s'. run env (Serve_dhcp e) s = Inr s' \<and> sys_ok s')"
proof (cases "dhcp_work s")
  case Nil
  then show ?thesis using ok by simp
next
  case (Cons r rs)
  let ?d = "db (srv s)" and ?g = "gw (srv s)"
  have g: "gateway_ok ?g" and dns: "length (dnsList ?d) \<le> 299" and ch: "channels_ok ?d"
    using ok by (simp_all add: sys_ok_def base_ok_def fed_ok_def)
  from create_dhcp_one_outcome [OF mem g dns, of env r] show ?thesis
  proof (elim disjE exE conjE)
    fix s' assume one: "create_dhcp_one env e r (?d, ?g) = Inr s'" and served: "dhcp_served env e r (?d, ?g) s'"
    obtain d' g' where s': "s' = (d', g')" by (cases s')
    have "same_config ?d d'" using served_keeps [OF served [unfolded s'] g] by blast
    then have "channels_ok d'" using ch by (simp add: same_config_def channels_ok_def)
    then have "sys_ok (s\<lparr>srv := with_both (d', g') (srv s)\<rparr>)"
      by (rule db_effect_ok [OF ok served_effect [OF c served [unfolded s'] g]])
    then show ?thesis using one s' Cons by (simp add: sys_ok_def)
  qed (use Cons in auto)
qed

lemma serve_update_ok:
  assumes ok: "sys_ok s"
  shows "\<exists>s'. run env (Serve_update err) s = Inr s' \<and> sys_ok s'"
proof (cases "update_work s")
  case Nil
  then show ?thesis using ok by simp
next
  case (Cons r rs)
  let ?d = "db (srv s)" and ?g = "gw (srv s)"
  obtain d' g' where one: "update_time_one env err r (?d, ?g) = (d', g')" by (cases "update_time_one env err r (?d, ?g)")
  note k = update_time_one_keeps [OF one]
  have "gateway_ok ?g" and "channels_ok ?d"
    using ok by (simp_all add: sys_ok_def base_ok_def fed_ok_def)
  moreover have "db_effect ?d ?g d' g'" using k(1-3) calculation(1) db_effect_del by auto
  ultimately have "sys_ok (s\<lparr>srv := with_both (d', g') (srv s)\<rparr>)"
    using k(4) by (intro db_effect_ok [OF ok]) simp_all
  then show ?thesis using one Cons by (simp add: sys_ok_def)
qed

lemma take_ok:
  assumes ok: "sys_ok s"
  shows "\<exists>s'. run env Take_dhcp s = Inr s' \<and> sys_ok s'" and "\<exists>s'. run env Take_updates s = Inr s' \<and> sys_ok s'"
proof -
  have ch: "eq_ok (createDHCPRequestQueue (db (srv s)))" "eq_ok (updateTimeQueue (db (srv s)))"
    using ok by (simp_all add: sys_ok_def base_ok_def channels_ok_def)
  then show "\<exists>s'. run env Take_dhcp s = Inr s' \<and> sys_ok s'" "\<exists>s'. run env Take_updates s = Inr s' \<and> sys_ok s'"
    using ok by (simp_all add: eq.handle_contents foldR_collect sys_ok_def base_ok_def channels_ok_def eq.invar_empty
        table_known_def)
qed

lemma signal_ok:
  assumes ok: "sys_ok s"
  shows "main_at s = Joining \<Longrightarrow> \<exists>s'. run env Signal s = Inr s' \<and> sys_ok s'"
    and "main_at s \<noteq> Joining \<Longrightarrow> run env Signal s = Inl DanglingPointer"
    and "\<exists>s'. run env Db_term s = Inr s' \<and> sys_ok s'" and "\<exists>s'. run env Main_delete s = Inr s' \<and> sys_ok s'"
proof -
  let ?d = "db (srv s)" and ?g = "gw (srv s)"
  have "gateway_ok ?g" "channels_ok ?d" using ok by (simp_all add: sys_ok_def base_ok_def fed_ok_def)
  then have "sys_ok (s\<lparr>srv := with_both (db_terminate ?d, terminate ?g) (srv s)\<rparr>)"
    by (intro db_effect_ok [OF ok]) (simp_all add: db_effect_del db_terminate_def channels_ok_def)
  then show "\<exists>s'. run env Signal s = Inr s' \<and> sys_ok s'" if "main_at s = Joining"
    using that by (simp add: exit_handle_def)
  show "run env Signal s = Inl DanglingPointer" if "main_at s \<noteq> Joining" using that by (simp add: exit_handle_def)
  show "\<exists>s'. run env Db_term s = Inr s' \<and> sys_ok s'" "\<exists>s'. run env Main_delete s = Inr s' \<and> sys_ok s'"
    using ok by (simp_all add: terminate_database_def sys_ok_def base_ok_def channels_ok_def table_known_def)
qed

lemma run_signal:
  assumes "run env Signal s = Inr s'"
  shows "main_at s = Joining" and "s' = s\<lparr>srv := with_both (db_terminate (db (srv s)), terminate (gw (srv s))) (srv s)\<rparr>"
  using assms by (auto simp: exit_handle_def split: if_split_asm)

text \<open>Edits of other clients.\<close>

lemma edit_ok:
  assumes ok: "sys_ok s" and "list_all (\<lambda>r. known (gw (srv s)) (inet_addr (sr_ip r))) statics"
  shows "sys_ok (s\<lparr>srv := set_tables statics users (srv s)\<rparr>)"
  using assms by (simp add: sys_ok_def base_ok_def set_tables_def table_known_def channels_ok_def list_all_iff)

section \<open>All steps\<close>

definition statement_failed :: "label \<Rightarrow> bool" where
  "statement_failed l \<longleftrightarrow> (case l of Serve_dhcp e \<Rightarrow> \<exists>k. de_err e k | _ \<Rightarrow> False)"

lemma step_ok:
  assumes "sys_ok s" and "addr_collation env" and "enabled l s" and "granted l s"
  shows "statement_failed l \<and> run env l s = Inl Exit \<or> l = Signal \<and> main_at s \<noteq> Joining \<and> run env l s = Inl DanglingPointer \<or>
    (\<exists>s'. run env l s = Inr s' \<and> sys_ok s')"
proof (cases l)
  case (Serve_dhcp e)
  then show ?thesis using serve_dhcp_ok [OF assms(1,2), of e] assms(4) by (simp add: statement_failed_def del: run.simps)
next
  case (Poll hs)
  then show ?thesis using poll_ok [OF assms(1), of hs] assms(3) by simp
next
  case (Edit statics users)
  then show ?thesis using edit_ok [OF assms(1), of statics users] assms(4) by simp
next
  case Signal
  then show ?thesis using signal_ok(1,2) [OF assms(1), of env] by (cases "main_at s = Joining") (simp_all del: run.simps)
qed (use assms read_steps_ok [OF assms(1)] dispatch_ok [OF assms(1)] take_ok [OF assms(1)] signal_ok(3,4) [OF assms(1)]
    serve_update_ok [OF assms(1)] in \<open>auto simp del: run.simps\<close>)

lemma reachable_ok:
  assumes "reachable env s0 s" and "sys_ok s0" and "addr_collation env"
  shows "sys_ok s"
  using assms(1)
proof induction
  case (reach_step s l s')
  from step_ok [OF reach_step.IH assms(3) reach_step.hyps(2,3)] reach_step.hyps(4) show ?case by auto
qed (rule assms(2))

section \<open>The start\<close>

text \<open>The two threads begin with fresh buffers.\<close>

definition boot :: "database \<Rightarrow> gateway \<Rightarrow> byte list \<Rightarrow> byte list \<Rightarrow> system" where
  "boot d g m1 m2 =
     \<lparr>srv = \<lparr>gw = g, db = d, inPacket = \<lparr>writtenByte = 0, capacity = MY_PACKET_LEN, inMemory = m1\<rparr>,
       outPacket = \<lparr>writtenByte = 0, capacity = MY_PACKET_LEN, inMemory = m2\<rparr>\<rparr>,
      mode = Forwarding, main_at = Joining, dhcp_work = [], update_work = []\<rparr>"

text \<open>Addresses users hold are in the address table, and the frames to come fit the buffers.\<close>

definition users_in_table :: "static_ip_row list \<Rightarrow> user_row list \<Rightarrow> bool" where
  "users_in_table statics users \<longleftrightarrow>
     list_all (\<lambda>u. case ur_ip u of None \<Rightarrow> True
       | Some a \<Rightarrow> list_ex (\<lambda>r. inet_addr (sr_ip r) = inet_addr a) statics) users"

definition wires_fit :: "start_env \<Rightarrow> bool" where
  "wires_fit se \<longleftrightarrow> list_all (\<lambda>r. recv_fits 1514 r \<and> arp_complete (ra_data r)) (se_in_rx se @ se_out_rx se)"

definition loaded_db :: "options \<Rightarrow> static_ip_row list \<Rightarrow> user_row list \<Rightarrow> database" where
  "loaded_db o1 statics users =
     Database_new (opt_gatewayIP o1) (opt_subnetMask o1) (opt_dnsList o1) (word_of_int (opt_timeout o1)) statics users"

lemma boot_ok:
  assumes "start_ok se (length users)" and "names_ok o1" and "tables_readable statics users"
    and "users_in_table statics users" and "wires_fit se" and "length (opt_dnsList o1) \<le> 299" and "length m1 = 1514" and "length m2 = 1514"
  shows "\<exists>g. start se o1 statics users = Inr (loaded_db o1 statics users, g) \<and> \<not> gotExit g \<and>
    still_open (se_in se) (inDev g) \<and> still_open (se_out se) (outDev g) \<and>
    sys_ok (boot (loaded_db o1 statics users) g m1 m2)"
proof -
  let ?d = "loaded_db o1 statics users"
  from start_loads [OF assms(1-3)] obtain g where
    g: "start se o1 statics users = Inr (?d, g)" "gateway_ok g" "registered g = Map.empty"
      "requests (staticIPAddRequest g) = map static_pair statics" "requests (staticIPDelRequest g) = []"
      "requested g = loaded_users o1 users" "rx (inDev g) = se_in_rx se" "rx (outDev g) = se_out_rx se"
      "\<not> gotExit g" "still_open (se_in se) (inDev g)" "still_open (se_out se) (outDev g)"
    unfolding loaded_db_def by blast
  have kn: "known g (inet_addr (sr_ip r))" if "r \<in> set statics" for r
    using that by (force simp: known_def g(4) static_pair_def lease_addr_def)
  have "known g (s_addr (ui_ip i))" if i: "i \<in> set (requested g)" for i
  proof -
    from i obtain u a where u: "u \<in> set users" "ur_ip u = Some a" "s_addr (ui_ip i) = inet_addr a"
      by (auto simp: g(6) loaded_users_def user_of_def lease_addr_def)
    then obtain r where "r \<in> set statics" "inet_addr (sr_ip r) = inet_addr a"
      using assms(4) by (fastforce simp: users_in_table_def list_all_iff list_ex_iff)
    with kn u(3) show ?thesis by metis
  qed
  then have "fed_ok g" using g(2,3,5) by (simp add: fed_ok_def)
  moreover have "users_static g" using users_static_registered [OF g(2)] g(3) by simp
  moreover have "wire_ok (inDev g)" "wire_ok (outDev g)"
    using assms(5) g(7,8) by (simp_all add: wires_fit_def wire_ok_def)
  moreover have "static_ip ?d = statics" "dnsList ?d = opt_dnsList o1" "channels_ok ?d"
    by (simp_all add: loaded_db_def Database_new_def channels_ok_def eq.invar_empty)
  ultimately have "sys_ok (boot ?d g m1 m2)"
    using assms(6-8) kn
    by (simp add: sys_ok_def base_ok_def boot_def stage_ok_def table_known_def buffer_ok_def sizes)
  with g(1,9-11) show ?thesis by blast
qed

section \<open>Termination requests\<close>

definition ending :: "system \<Rightarrow> bool" where
  "ending s \<longleftrightarrow> (termEvent (gw (srv s)) > 0 \<or> gotExit (gw (srv s))) \<and>
     (db_termEvent (db (srv s)) > 0 \<or> db_gotExit (db (srv s)))"

lemma served_keeps_exit:
  assumes "dhcp_served env e r (d, g) (d', g')" and "gateway_ok g"
  shows "termEvent g' = termEvent g" and "gotExit g' = gotExit g"
  using assms by (auto simp: dhcp_served_def queues_answer_def split: option.splits if_split_asm)

lemma ending_same_exit:
  "ending s \<Longrightarrow> same_exit (srv s) v \<Longrightarrow> ending (s\<lparr>srv := v\<rparr>)"
  by (simp add: ending_def same_exit_def same_store_def)

lemma ending_read:
  assumes ok: "sys_ok s" and "mode s = Forwarding" and "icmp_block mem" and e: "ending s"
  shows "run env (Read_inside now mem) s = Inr s' \<Longrightarrow> ending s'" and "run env (Read_outside mem) s = Inr s' \<Longrightarrow> ending s'"
proof -
  have v: "server_ok (srv s)" using ok assms(2) by (simp add: sys_ok_def stage_ok_def server_ok_base)
  show "run env (Read_inside now mem) s = Inr s' \<Longrightarrow> ending s'"
    using in_step_ok [OF v assms(3), of now] ending_same_exit [OF e] by auto
  show "run env (Read_outside mem) s = Inr s' \<Longrightarrow> ending s'"
    using out_step_ok [OF v assms(3)] ending_same_exit [OF e] by auto
qed

lemma ending_dispatch:
  assumes ok: "sys_ok s" and run: "run env Dispatch s = Inr s'" and e: "ending s"
  shows "ending s'"
proof -
  have fed: "fed_ok (gw (srv s))" using ok by (simp add: sys_ok_def base_ok_def)
  consider "mode s = Forwarding \<or> mode s = Dispatching []" | h hs where "mode s = Dispatching (h # hs)"
    by (metis list.exhaust mode.exhaust)
  then show ?thesis
  proof cases
    case 1
    then show ?thesis using run e by (auto simp: ending_def)
  next
    case (2 h hs)
    from event_step_ok [OF fed, of h] obtain g where
      "event_step h (gw (srv s)) = Inr g"
      "gotExit (gw (srv s)) \<or> h = H_term \<and> termEvent (gw (srv s)) > 0 \<longrightarrow> gotExit g"
      "h \<noteq> H_term \<longrightarrow> termEvent g = termEvent (gw (srv s))" by blast
    then show ?thesis using 2 run e by (cases "h = H_term") (auto simp: ending_def with_gw_def)
  qed
qed

lemma ending_serve_dhcp:
  assumes ok: "sys_ok s" and mem: "memory_ok ev (gw (srv s))" and run: "run env (Serve_dhcp ev) s = Inr s'"
    and e: "ending s"
  shows "ending s'"
proof (cases "dhcp_work s")
  case (Cons r rs)
  let ?d = "db (srv s)" and ?g = "gw (srv s)"
  have g: "gateway_ok ?g" and dns: "length (dnsList ?d) \<le> 299"
    using ok by (simp_all add: sys_ok_def base_ok_def fed_ok_def)
  from create_dhcp_one_outcome [OF mem g dns, of env r] run Cons obtain d' g' where
    one: "create_dhcp_one env ev r (?d, ?g) = Inr (d', g')" "dhcp_served env ev r (?d, ?g) (d', g')" by auto
  have "same_config ?d d'" using served_keeps [OF one(2) g] by blast
  then show ?thesis using served_keeps_exit [OF one(2) g] one(1) run e Cons
    by (auto simp: ending_def with_both_def same_config_def)
qed (use run e in auto)

lemma ending_serve_update:
  assumes run: "run env (Serve_update err) s = Inr s'" and e: "ending s"
  shows "ending s'"
proof (cases "update_work s")
  case (Cons r rs)
  obtain d' g' where one: "update_time_one env err r (db (srv s), gw (srv s)) = (d', g')"
    by (cases "update_time_one env err r (db (srv s), gw (srv s))")
  from update_time_one_keeps(3,6,7) [OF one] one run e Cons show ?thesis
    by (auto simp: ending_def with_both_def delUserInfo_def)
qed (use run e in auto)

lemma ending_step:
  assumes ok: "sys_ok s" and "enabled l s" and "granted l s" and run: "run env l s = Inr s'" and e: "ending s"
  shows "ending s'"
proof (cases l)
  case (Read_inside now mem)
  then show ?thesis using ending_read(1) [OF ok, of mem env now s'] assms by simp
next
  case (Read_outside mem)
  then show ?thesis using ending_read(2) [OF ok, of mem env s'] assms by simp
next
  case Dispatch
  then show ?thesis using ending_dispatch [OF ok _ e] run by simp
next
  case (Serve_dhcp ev)
  then show ?thesis using ending_serve_dhcp [OF ok _ _ e] assms(3) run by simp
next
  case (Serve_update err)
  then show ?thesis using ending_serve_update [OF _ e] run by simp
next
  case Signal
  then show ?thesis using run_signal(2) [of env s s'] run e
    by (auto simp: ending_def with_both_def db_terminate_def terminate_def simp del: run.simps)
qed (use run e in \<open>auto simp: ending_def terminate_database_def set_tables_def\<close>)

lemma reachable_ending:
  assumes "reachable env s0 s" and "sys_ok s0" and "addr_collation env" and "ending s0"
  shows "ending s"
  using assms(1)
proof induction
  case (reach_step s l s')
  have "sys_ok s" by (rule reachable_ok [OF reach_step.hyps(1) assms(2,3)])
  from ending_step [OF this reach_step.hyps(2-4) reach_step.IH] show ?case .
qed (rule assms(4))

section \<open>The devices\<close>

text \<open>No step changes the socket of a device or the flags it is to restore.\<close>

definition same_handles :: "gateway \<Rightarrow> gateway \<Rightarrow> bool" where
  "same_handles g g' \<longleftrightarrow> handle_of (inDev g') = handle_of (inDev g) \<and> handle_of (outDev g') = handle_of (outDev g)"

lemma handles_read:
  assumes ok: "sys_ok s" and "mode s = Forwarding" and "icmp_block mem"
  shows "run env (Read_inside now mem) s = Inr s' \<Longrightarrow> same_handles (gw (srv s)) (gw (srv s'))"
    and "run env (Read_outside mem) s = Inr s' \<Longrightarrow> same_handles (gw (srv s)) (gw (srv s'))"
proof -
  have v: "server_ok (srv s)" using ok assms(2) by (simp add: sys_ok_def stage_ok_def server_ok_base)
  show "run env (Read_inside now mem) s = Inr s' \<Longrightarrow> same_handles (gw (srv s)) (gw (srv s'))"
    using in_step_ok [OF v assms(3), of now] by (auto simp: same_exit_def same_handles_def)
  show "run env (Read_outside mem) s = Inr s' \<Longrightarrow> same_handles (gw (srv s)) (gw (srv s'))"
    using out_step_ok [OF v assms(3)] by (auto simp: same_exit_def same_handles_def)
qed

lemma handles_dispatch:
  assumes ok: "sys_ok s" and run: "run env Dispatch s = Inr s'"
  shows "same_handles (gw (srv s)) (gw (srv s'))"
proof -
  have fed: "fed_ok (gw (srv s))" using ok by (simp add: sys_ok_def base_ok_def)
  have "same_handles (gw (srv s)) g" if "event_step h (gw (srv s)) = Inr g" for h g
    using event_step_ok [OF fed, of h] that by (auto simp: same_handles_def same_wires_def)
  then show ?thesis using run
    by (auto simp: same_handles_def with_gw_def split: mode.splits list.splits)
qed

lemma handles_step:
  assumes ok: "sys_ok s" and c: "addr_collation env" and "enabled l s" and "granted l s"
    and run: "run env l s = Inr s'"
  shows "same_handles (gw (srv s)) (gw (srv s'))"
proof (cases l)
  case (Read_inside now mem)
  then show ?thesis using handles_read(1) [OF ok, of mem env now s'] assms by simp
next
  case (Read_outside mem)
  then show ?thesis using handles_read(2) [OF ok, of mem env s'] assms by simp
next
  case Dispatch
  then show ?thesis using handles_dispatch [OF ok] run by simp
next
  case (Serve_dhcp ev)
  have g: "gateway_ok (gw (srv s))" "length (dnsList (db (srv s))) \<le> 299"
    using ok by (simp_all add: sys_ok_def base_ok_def fed_ok_def)
  have mem: "memory_ok ev (gw (srv s))" using Serve_dhcp assms(4) by simp
  show ?thesis
  proof (cases "dhcp_work s")
    case (Cons r rs)
    from create_dhcp_one_outcome [OF mem g, of env r] run Cons Serve_dhcp obtain d' g' where
      one: "create_dhcp_one env ev r (db (srv s), gw (srv s)) = Inr (d', g')"
        "dhcp_served env ev r (db (srv s), gw (srv s)) (d', g')" by auto
    then show ?thesis using served_effect [OF c one(2) g(1)] run Cons Serve_dhcp
      by (auto simp: db_effect_def same_handles_def with_both_def)
  qed (use run Serve_dhcp in \<open>auto simp: same_handles_def\<close>)
next
  case (Serve_update err)
  show ?thesis
  proof (cases "update_work s")
    case (Cons r rs)
    obtain d' g' where one: "update_time_one env err r (db (srv s), gw (srv s)) = (d', g')"
      by (cases "update_time_one env err r (db (srv s), gw (srv s))")
    from update_time_one_keeps(3) [OF one] one run Cons Serve_update show ?thesis
      by (auto simp: same_handles_def with_both_def delUserInfo_def)
  qed (use run Serve_update in \<open>auto simp: same_handles_def\<close>)
next
  case Signal
  then show ?thesis using run_signal(2) [of env s s'] run
    by (auto simp: same_handles_def with_both_def terminate_def simp del: run.simps)
qed (use run in \<open>auto simp: same_handles_def set_tables_def\<close>)

lemma reachable_handles:
  assumes "reachable env s0 s" and "sys_ok s0" and "addr_collation env"
  shows "same_handles (gw (srv s0)) (gw (srv s))"
  using assms(1)
proof induction
  case (reach_step s l s')
  have "sys_ok s" by (rule reachable_ok [OF reach_step.hyps(1) assms(2,3)])
  from handles_step [OF this assms(3) reach_step.hyps(2-4)] reach_step.IH show ?case by (simp add: same_handles_def)
qed (simp add: same_handles_def)

lemma reachable_open:
  assumes "reachable env s0 s" and "sys_ok s0" and "addr_collation env"
    and "still_open e (inDev (gw (srv s0)))" and "still_open e' (outDev (gw (srv s0)))"
  shows "still_open e (inDev (gw (srv s)))" and "still_open e' (outDev (gw (srv s)))"
  using reachable_handles [OF assms(1-3)] assms(4,5) by (simp_all add: same_handles_def handle_of_def still_open_def)

section \<open>Leases\<close>

text \<open>Whether an edit leaves a user table in which nobody holds the address of another.\<close>

definition edit_keeps_leases :: "sql_env \<Rightarrow> label \<Rightarrow> system \<Rightarrow> bool" where
  "edit_keeps_leases env l s \<longleftrightarrow>
     (case l of Edit statics users \<Rightarrow> leases_ok env ((db (srv s))\<lparr>user := users\<rparr>) | _ \<Rightarrow> True)"

lemma leases_cong: "user d' = user d \<Longrightarrow> leases_ok env d' = leases_ok env d"
  by (simp add: leases_ok_def)

lemma read_keeps:
  assumes ok: "sys_ok s" and "mode s = Forwarding" and "icmp_block mem"
  shows "run env (Read_inside now mem) s = Inr s' \<Longrightarrow> same_exit (srv s) (srv s')"
    and "run env (Read_outside mem) s = Inr s' \<Longrightarrow> same_exit (srv s) (srv s')"
proof -
  have v: "server_ok (srv s)" using ok assms(2) by (simp add: sys_ok_def stage_ok_def server_ok_base)
  show "run env (Read_inside now mem) s = Inr s' \<Longrightarrow> same_exit (srv s) (srv s')"
    using in_step_ok [OF v assms(3), of now] by auto
  show "run env (Read_outside mem) s = Inr s' \<Longrightarrow> same_exit (srv s) (srv s')"
    using out_step_ok [OF v assms(3)] by auto
qed

lemma dispatch_keeps:
  assumes ok: "sys_ok s" and run: "run env Dispatch s = Inr s'"
  shows "db (srv s') = db (srv s)"
    and "\<forall>hs. mode s \<noteq> Dispatching (H_add_user # hs) \<Longrightarrow> requested (gw (srv s')) = requested (gw (srv s))"
proof -
  have fed: "fed_ok (gw (srv s))" using ok by (simp add: sys_ok_def base_ok_def)
  show "db (srv s') = db (srv s)"
    using run by (auto simp: with_gw_def split: mode.splits list.splits)
  show "requested (gw (srv s')) = requested (gw (srv s))" if "\<forall>hs. mode s \<noteq> Dispatching (H_add_user # hs)"
  proof -
    consider "mode s = Forwarding \<or> mode s = Dispatching []" | h hs where "mode s = Dispatching (h # hs)"
      by (metis list.exhaust mode.exhaust)
    then show ?thesis
    proof cases
      case 1
      then show ?thesis using run by auto
    next
      case (2 h hs)
      then have "h \<noteq> H_add_user" using that by auto
      with event_step_ok [OF fed, of h] obtain g where
        "event_step h (gw (srv s)) = Inr g" "requested g = requested (gw (srv s))" by blast
      then show ?thesis using 2 run by (auto simp: with_gw_def)
    qed
  qed
qed

lemma serve_dhcp_run:
  assumes ok: "sys_ok s" and mem: "memory_ok e (gw (srv s))" and work: "dhcp_work s = r # rs"
    and run: "run env (Serve_dhcp e) s = Inr s'"
  obtains d' g' where "create_dhcp_one env e r (db (srv s), gw (srv s)) = Inr (d', g')"
    and "dhcp_served env e r (db (srv s), gw (srv s)) (d', g')" and "db (srv s') = d'" and "gw (srv s') = g'"
proof -
  have g: "gateway_ok (gw (srv s))" "length (dnsList (db (srv s))) \<le> 299"
    using ok by (simp_all add: sys_ok_def base_ok_def fed_ok_def)
  from create_dhcp_one_outcome [OF mem g, of env r] run work that show thesis
    by (auto simp: with_both_def)
qed

lemma serve_update_run:
  assumes work: "update_work s = r # rs" and run: "run env (Serve_update err) s = Inr s'"
  obtains d' g' where "update_time_one env err r (db (srv s), gw (srv s)) = (d', g')"
    and "db (srv s') = d'" and "gw (srv s') = g'"
  using assms by (cases "update_time_one env err r (db (srv s), gw (srv s))") (auto simp: with_both_def)

lemma leases_step:
  assumes ok: "sys_ok s" and c: "collation env" and "enabled l s" and "granted l s"
    and edits: "edit_keeps_leases env l s" and run: "run env l s = Inr s'" and le: "leases_ok env (db (srv s))"
  shows "leases_ok env (db (srv s'))"
proof (cases l)
  case (Read_inside now mem)
  then show ?thesis using read_keeps(1) [OF ok, of mem env now s'] assms leases_cong [of "db (srv s')" "db (srv s)" env]
    by (simp add: same_exit_def same_store_def del: run.simps)
next
  case (Read_outside mem)
  then show ?thesis using read_keeps(2) [OF ok, of mem env s'] assms leases_cong [of "db (srv s')" "db (srv s)" env]
    by (simp add: same_exit_def same_store_def del: run.simps)
next
  case Dispatch
  then show ?thesis using dispatch_keeps(1) [OF ok] run le by simp
next
  case (Serve_dhcp e)
  show ?thesis
  proof (cases "dhcp_work s")
    case (Cons r rs)
    have "memory_ok e (gw (srv s))" using Serve_dhcp assms(4) by simp
    from serve_dhcp_run [OF ok this Cons run [unfolded Serve_dhcp]] create_dhcp_one_leases [OF c le]
    show ?thesis by metis
  qed (use run Serve_dhcp le in auto)
next
  case (Serve_update err)
  show ?thesis
  proof (cases "update_work s")
    case (Cons r rs)
    from serve_update_run [OF Cons run [unfolded Serve_update]] update_time_one_keeps(5) le show ?thesis by metis
  qed (use run Serve_update le in auto)
next
  case Signal
  then show ?thesis using run_signal(2) [of env s s'] run le leases_cong [of "db (srv s')" "db (srv s)" env]
    by (simp add: with_both_def db_terminate_def del: run.simps)
next
  case (Edit statics users)
  then show ?thesis using run edits by (auto simp: edit_keeps_leases_def set_tables_def leases_ok_def)
qed (use run le in \<open>auto simp: leases_ok_def terminate_database_def\<close>)

lemma reachable_leases:
  assumes "reachable_by (\<lambda>l s. granted l s \<and> edit_keeps_leases env l s) env s0 s" and "sys_ok s0" and "collation env"
    and "addr_collation env" and "leases_ok env (db (srv s0))"
  shows "leases_ok env (db (srv s))"
  using assms(1)
proof induction
  case (reach_step s l s')
  have "reachable env s0 s" by (rule reachable_by_mono [OF reach_step.hyps(1)]) simp
  then have "sys_ok s" by (rule reachable_ok [OF _ assms(2,4)])
  with leases_step [OF this assms(3)] reach_step show ?case by blast
qed (rule assms(5))

section \<open>Users asked for\<close>

text \<open>A step that does not run the handler for new users only appends to the list of users asked for.\<close>

definition runs_add_user :: "label \<Rightarrow> system \<Rightarrow> bool" where
  "runs_add_user l s \<longleftrightarrow> l = Dispatch \<and> (case mode s of Dispatching (h # hs) \<Rightarrow> h = H_add_user | _ \<Rightarrow> False)"

lemma requested_step:
  assumes ok: "sys_ok s" and c: "addr_collation env" and "enabled l s" and "granted l s" and "\<not> runs_add_user l s"
    and run: "run env l s = Inr s'"
  shows "\<exists>us. requested (gw (srv s')) = requested (gw (srv s)) @ us"
proof (cases l)
  case (Read_inside now mem)
  then show ?thesis using read_keeps(1) [OF ok, of mem env now s'] assms by (simp add: same_exit_def del: run.simps)
next
  case (Read_outside mem)
  then show ?thesis using read_keeps(2) [OF ok, of mem env s'] assms by (simp add: same_exit_def del: run.simps)
next
  case Dispatch
  then have "\<forall>hs. mode s \<noteq> Dispatching (H_add_user # hs)" using assms(5) by (auto simp: runs_add_user_def)
  then show ?thesis using dispatch_keeps(2) [OF ok, of env s'] run Dispatch by simp
next
  case (Serve_dhcp e)
  show ?thesis
  proof (cases "dhcp_work s")
    case (Cons r rs)
    have "memory_ok e (gw (srv s))" "gateway_ok (gw (srv s))"
      using Serve_dhcp assms(4) ok by (simp_all add: sys_ok_def base_ok_def fed_ok_def)
    with serve_dhcp_run [OF ok this(1) Cons run [unfolded Serve_dhcp]] served_effect [OF c] show ?thesis
      by (metis db_effect_def)
  qed (use run Serve_dhcp in auto)
next
  case (Serve_update err)
  show ?thesis
  proof (cases "update_work s")
    case (Cons r rs)
    obtain d' g' where "update_time_one env err r (db (srv s), gw (srv s)) = (d', g')" "gw (srv s') = g'"
      using serve_update_run [OF Cons run [unfolded Serve_update]] by metis
    then show ?thesis using update_time_one_keeps(3) [of env err r "db (srv s)" "gw (srv s)" d' g']
      by (auto simp: delUserInfo_def requested_def)
  qed (use run Serve_update in auto)
next
  case Signal
  then show ?thesis using run_signal(2) [of env s s'] run
    by (simp add: with_both_def terminate_def requested_def del: run.simps)
qed (use run in \<open>auto simp: set_tables_def\<close>)

lemma reachable_requested:
  assumes "reachable_by (\<lambda>l s. granted l s \<and> \<not> runs_add_user l s) env s0 s" and "sys_ok s0" and "addr_collation env"
  shows "\<exists>us. requested (gw (srv s)) = requested (gw (srv s0)) @ us"
  using assms(1)
proof induction
  case (reach_step s l s')
  have "reachable env s0 s" by (rule reachable_by_mono [OF reach_step.hyps(1)]) simp
  then have "sys_ok s" by (rule reachable_ok [OF _ assms(2,3)])
  with requested_step [OF this assms(3), of l s'] reach_step show ?case by (metis append.assoc)
qed simp

text \<open>Of several users asked for under one address the last is registered.\<close>

definition for_addr :: "u32 \<Rightarrow> userInfo list \<Rightarrow> userInfo list" where
  "for_addr a us = List.filter (\<lambda>i. s_addr (ui_ip i) = a) us"

lemma last_request:
  "map_of (rev (map (\<lambda>i. (s_addr (ui_ip i), i)) us)) a = (if for_addr a us = [] then None else Some (last (for_addr a us)))"
  by (induction us) (auto simp: for_addr_def map_add_def split: option.splits)

lemma ready_add_user: "gateway_ok g \<Longrightarrow> ready g H_add_user \<longleftrightarrow> requested g \<noteq> []"
  by (auto simp: gateway_ok_def eq_ok_def requested_def blocks_def)

lemma add_user_dispatch:
  assumes ok: "sys_ok s" and m: "mode s = Dispatching (H_add_user # hs)"
    and us: "requested (gw (srv s)) = old @ i # later" and a: "s_addr (ui_ip i) = a"
  shows "\<exists>s'. run env Dispatch s = Inr s' \<and> registered (gw (srv s')) a = Some (last (i # for_addr a later))"
proof -
  have "gateway_ok (gw (srv s))" using ok by (simp add: sys_ok_def base_ok_def fed_ok_def)
  from first_users [OF this] obtain g where
    g: "event_step H_add_user (gw (srv s)) = Inr g"
      "registered g = registered (gw (srv s)) ++ map_of (rev (map (\<lambda>i. (s_addr (ui_ip i), i)) (requested (gw (srv s)))))"
    by blast
  have f: "for_addr a (old @ i # later) = for_addr a old @ i # for_addr a later" using a by (simp add: for_addr_def)
  have "registered g a = Some (last (i # for_addr a later))"
    unfolding g(2) us map_add_def last_request f by simp
  then show ?thesis using g(1) m by (simp add: with_gw_def)
qed

end
