(* ===== verification/Shutdown.thy ===== *)
theory Shutdown
  imports System
begin

text \<open>
  The end of the program: what the destructors at the end of \<^verbatim>\<open>main\<close> give back of what the constructors took.
\<close>

section \<open>Devices\<close>

lemma Device_closes:
  assumes "still_open e d" and "ret_socket e > 0"
  shows "fst (Device_delete d) = [Call_SIOCSIFFLAGS (old_flags e), Call_close (ret_socket e)]"
  using assms by (simp add: still_open_def Device_delete_def)

section \<open>What is left\<close>

definition left_behind :: "start_env \<Rightarrow> res list" where
  "left_behind se =
     [R_fd (se_db_fds se 0), R_fd (se_db_fds se 2), R_mutex M_updateTimeLock, R_event_base, R_event_base] @
     map (R_event \<circ> se_db_fds se) [0, 1, 2] @ map (R_event \<circ> se_gw_fds se) [0, 1, 2, 3, 4, 5]"

lemma Gateway_deletes:
  assumes "still_open (se_in se) (inDev g)" and "still_open (se_out se) (outDev g)"
    and "ret_socket (se_in se) > 0" and "ret_socket (se_out se) > 0"
  shows "fst (Gateway_delete fds g) =
    map Mutex_destroy gateway_locks @
    map Sys_dev [Call_SIOCSIFFLAGS (old_flags (se_in se)), Call_close (ret_socket (se_in se)),
                 Call_SIOCSIFFLAGS (old_flags (se_out se)), Call_close (ret_socket (se_out se))] @
    map (Sys_close \<circ> fds) [0, 1, 2, 3, 4, 5]"
  using Device_closes [OF assms(1,3)] Device_closes [OF assms(2,4)]
  by (cases "Device_delete (inDev g)", cases "Device_delete (outDev g)") (simp add: Gateway_delete_def)

lemma main_end_balance:
  assumes se: "start_ok se n" and socks: "ret_socket (se_in se) > 0" "ret_socket (se_out se) > 0"
    and dev: "still_open (se_in se) (inDev g)" "still_open (se_out se) (outDev g)"
  shows "\<exists>h. ledger (fst (Database_open se a b c gw_ip netmask dns tmo statics users) @
      fst (Gateway_open se (Some i) (Some o2)) @ main_end se g) [] = Some h \<and> mset h = mset (left_behind se)"
proof -
  have fds: "se_db_fds se k \<ge> 0" "se_gw_fds se k \<ge> 0" for k using se by (auto simp: start_ok_def)
  have op: "opens (se_in se)" "opens (se_out se)" using se by (simp_all add: start_ok_def)
  note calls = Database_opens [OF se] Gateway_opens_calls [OF se Device_opened [OF op(1)] Device_opened [OF op(2)]]
    main_end_def Gateway_deletes [OF dev socks] Database_delete_def sql_setup_def gateway_locks_def
  show ?thesis
    unfolding append_assoc [symmetric]
    by (rule ledger_balance) (use fds socks in \<open>simp_all add: calls descriptor_def left_behind_def not_less [symmetric]\<close>)
qed

text \<open>The calls of the whole program: both constructors, and the end of \<^verbatim>\<open>main\<close> in the state the threads left.\<close>

definition program_calls :: "start_env \<Rightarrow> options \<Rightarrow> static_ip_row list \<Rightarrow> user_row list \<Rightarrow> system \<Rightarrow> sys_call list" where
  "program_calls se o1 statics users s =
     fst (Database_open se (the (db_user o1)) (the (db_pass o1)) (the (db_name o1)) (opt_gatewayIP o1)
       (opt_subnetMask o1) (opt_dnsList o1) (word_of_int (opt_timeout o1)) statics users) @
     fst (Gateway_open se (in_dev o1) (out_dev o1)) @ main_end se (gw (srv s))"

end
