(* ===== verification/Channel_Locks.thy ===== *)
theory Channel_Locks
  imports Gateway
begin

text \<open>
  Why a request channel may be taken as atomic. \<^verbatim>\<open>Event_Queue\<close> models a call of a sender and a call of a
  handler as one operation each; here the same code runs one call at a time, interleaved between
  any number of threads: \<^verbatim>\<open>pthread_mutex_lock\<close>, \<^verbatim>\<open>push\<close>, \<^verbatim>\<open>eventfd_write\<close>, \<^verbatim>\<open>pthread_mutex_unlock\<close> for a
  sender, and lock, \<^verbatim>\<open>eventfd_read\<close>, the loop of \<^verbatim>\<open>front\<close>, \<^verbatim>\<open>pop\<close> and work, unlock for the handler. The
  lemmas show that the lock keeps the threads apart, that every step is invisible or is the atomic
  operation, and that the lock is always given back.
\<close>

section \<open>The code of the threads\<close>

datatype 'a instr = Lock | Push 'a | Write | Unlock | Read | Loop

definition sender_code :: "'a \<Rightarrow> 'a instr list" where
  "sender_code x = [Lock, Push x, Write, Unlock]"

definition handler_code :: "'a instr list" where
  "handler_code = [Lock, Read, Loop, Unlock]"

section \<open>Execution\<close>

text \<open>The channel, the rest of the code of each thread, the handler's local variables \<^verbatim>\<open>v\<close> and \<^verbatim>\<open>count\<close>, the
  state its work changes, and, to speak about order, everything ever pushed. Thread 0 runs the handler.\<close>

record ('a, 's) chan =
  ch_owner :: "nat option"
  ch_counter :: nat
  ch_queue :: "'a list"
  ch_code :: "nat \<Rightarrow> 'a instr list"
  ch_v :: nat
  ch_count :: nat
  ch_state :: 's
  ch_sent :: "'a list"

definition chan_start :: "'s \<Rightarrow> ('a, 's) chan" where
  "chan_start s =
     \<lparr>ch_owner = None, ch_counter = 0, ch_queue = [], ch_code = (\<lambda>t. []), ch_v = 0, ch_count = 0,
      ch_state = s, ch_sent = []\<rparr>"

text \<open>The largest value of an \<^verbatim>\<open>eventfd\<close> counter; a write that would exceed it blocks.\<close>

definition eventfd_max :: nat where
  "eventfd_max = 2 ^ 64 - 2"

definition goto :: "nat \<Rightarrow> 'a instr list \<Rightarrow> ('a, 's) chan \<Rightarrow> ('a, 's) chan" where
  "goto t k c = c\<lparr>ch_code := (ch_code c)(t := k)\<rparr>"

text \<open>One call of thread \<open>t\<close>, which goes on with \<open>k\<close>: \<open>None\<close> when it blocks, \<open>Inl\<close> when it faults.\<close>

fun exec :: "('a \<Rightarrow> 's \<Rightarrow> 's result) \<Rightarrow> 'a instr \<Rightarrow> 'a instr list \<Rightarrow> nat \<Rightarrow> ('a, 's) chan \<Rightarrow>
  ('a, 's) chan result option" where
  "exec f Lock k t c = (if ch_owner c = None then Some (Inr (goto t k (c\<lparr>ch_owner := Some t\<rparr>))) else None)"
| "exec f (Push x) k t c = Some (Inr (goto t k (c\<lparr>ch_queue := ch_queue c @ [x], ch_sent := ch_sent c @ [x]\<rparr>)))"
| "exec f Write k t c =
     (if ch_counter c < eventfd_max then Some (Inr (goto t k (c\<lparr>ch_counter := ch_counter c + 1\<rparr>))) else None)"
| "exec f Unlock k t c = Some (Inr (goto t k (c\<lparr>ch_owner := None\<rparr>)))"
| "exec f Read k t c =
     (if ch_counter c = 0 then None
      else Some (Inr (goto t k (c\<lparr>ch_v := ch_counter c, ch_count := 0, ch_counter := 0\<rparr>))))"
| "exec f Loop k t c =
     (if ch_count c < ch_v c then
        Some (case ch_queue c of
            [] \<Rightarrow> Inl EmptyQueue
          | x # q \<Rightarrow> mapR (\<lambda>s. c\<lparr>ch_queue := q, ch_count := ch_count c + 1, ch_state := s\<rparr>) (f x (ch_state c)))
      else Some (Inr (goto t k c)))"

definition thread_step :: "('a \<Rightarrow> 's \<Rightarrow> 's result) \<Rightarrow> nat \<Rightarrow> ('a, 's) chan \<Rightarrow> ('a, 's) chan result option" where
  "thread_step f t c = (case ch_code c t of [] \<Rightarrow> None | i # k \<Rightarrow> exec f i k t c)"

text \<open>An idle thread may call the sender; the event loop calls the handler when the counter is readable.\<close>

inductive chan_reach :: "('a \<Rightarrow> 's \<Rightarrow> 's result) \<Rightarrow> 's \<Rightarrow> ('a, 's) chan \<Rightarrow> bool" for f s0 where
  start: "chan_reach f s0 (chan_start s0)"
| call: "chan_reach f s0 c \<Longrightarrow> ch_code c t = [] \<Longrightarrow> chan_reach f s0 (goto t (sender_code x) c)"
| event: "chan_reach f s0 c \<Longrightarrow> ch_code c 0 = [] \<Longrightarrow> ch_counter c > 0 \<Longrightarrow> chan_reach f s0 (goto 0 handler_code c)"
| step: "chan_reach f s0 c \<Longrightarrow> thread_step f t c = Some (Inr c') \<Longrightarrow> chan_reach f s0 c'"

section \<open>The invariant\<close>

definition holds :: "'a instr list \<Rightarrow> bool" where
  "holds k \<longleftrightarrow> k \<noteq> [] \<and> hd k \<noteq> Lock"

inductive code_at :: "nat \<Rightarrow> 'a instr list \<Rightarrow> bool" where
  "code_at t []"
| "code_at t (sender_code x)"
| "code_at t [Push x, Write, Unlock]"
| "code_at t [Write, Unlock]"
| "code_at t [Unlock]"
| "code_at 0 handler_code"
| "code_at 0 [Read, Loop, Unlock]"
| "code_at 0 [Loop, Unlock]"

text \<open>What is still to be popped in this call of the handler.\<close>

definition todo :: "('a, 's) chan \<Rightarrow> nat" where
  "todo c = ch_v c - ch_count c"

text \<open>How the counter and the queue agree, by what the thread with the lock does next.\<close>

definition agree :: "'a instr list \<Rightarrow> ('a, 's) chan \<Rightarrow> bool" where
  "agree k c \<longleftrightarrow>
     (if k = [Write, Unlock] then length (ch_queue c) = ch_counter c + 1 \<and> todo c = 0
      else if k = [Loop, Unlock] then length (ch_queue c) = todo c \<and> ch_counter c = 0
      else length (ch_queue c) = ch_counter c \<and> todo c = 0)"

definition chan_inv :: "('a \<Rightarrow> 's \<Rightarrow> 's result) \<Rightarrow> 's \<Rightarrow> ('a, 's) chan \<Rightarrow> bool" where
  "chan_inv f s0 c \<longleftrightarrow>
     (\<forall>t. code_at t (ch_code c t)) \<and>
     (\<forall>t. holds (ch_code c t) \<longleftrightarrow> ch_owner c = Some t) \<and>
     agree (case ch_owner c of None \<Rightarrow> [] | Some t \<Rightarrow> ch_code c t) c \<and>
     (ch_code c 0 = handler_code \<or> ch_code c 0 = [Read, Loop, Unlock] \<longrightarrow> ch_counter c > 0) \<and>
     (\<exists>ds. ch_sent c = ds @ ch_queue c \<and> foldR f ds s0 = Inr (ch_state c))"

inductive_cases code_atE: "code_at t k"

lemmas chan_defs = goto_def sender_code_def handler_code_def holds_def todo_def agree_def

lemma code_at_tl: "code_at t (i # k) \<Longrightarrow> code_at t k"
  by (erule code_atE) (auto simp: sender_code_def handler_code_def intro: code_at.intros)

lemma code_at_Lock: "code_at t (Lock # k) \<Longrightarrow> (\<exists>x. k = [Push x, Write, Unlock]) \<or> (t = 0 \<and> k = [Read, Loop, Unlock])"
  by (erule code_atE) (auto simp: sender_code_def handler_code_def)

lemma code_at_next:
  "code_at t (Push x # k) \<Longrightarrow> k = [Write, Unlock]"
  "code_at t (Write # k) \<Longrightarrow> k = [Unlock]"
  "code_at t (Unlock # k) \<Longrightarrow> k = []"
  "code_at t (Read # k) \<Longrightarrow> t = 0 \<and> k = [Loop, Unlock]"
  "code_at t (Loop # k) \<Longrightarrow> t = 0 \<and> k = [Unlock]"
  by (erule code_atE; simp add: sender_code_def handler_code_def)+

lemma invD:
  assumes "chan_inv f s0 c"
  shows inv_code: "code_at t (ch_code c t)"
    and inv_owner: "holds (ch_code c t) \<longleftrightarrow> ch_owner c = Some t"
    and inv_free: "ch_owner c = None \<Longrightarrow> length (ch_queue c) = ch_counter c \<and> todo c = 0"
    and inv_agree: "ch_owner c = Some t \<Longrightarrow> agree (ch_code c t) c"
    and inv_counter: "ch_code c 0 = handler_code \<or> ch_code c 0 = [Read, Loop, Unlock] \<Longrightarrow> ch_counter c > 0"
    and inv_served: "\<exists>ds. ch_sent c = ds @ ch_queue c \<and> foldR f ds s0 = Inr (ch_state c)"
  using assms by (auto simp: chan_inv_def agree_def)

lemma goto_simps [simp]:
  "ch_code (goto t k c) = (ch_code c)(t := k)" "ch_owner (goto t k c) = ch_owner c"
  "ch_counter (goto t k c) = ch_counter c" "ch_queue (goto t k c) = ch_queue c"
  "ch_state (goto t k c) = ch_state c" "ch_sent (goto t k c) = ch_sent c"
  "ch_v (goto t k c) = ch_v c" "ch_count (goto t k c) = ch_count c"
  by (simp_all add: goto_def)

lemma holds_simps [simp]: "\<not> holds []" "holds (i # k) \<longleftrightarrow> i \<noteq> Lock" "\<not> holds (sender_code x)" "\<not> holds handler_code"
  by (simp_all add: holds_def sender_code_def handler_code_def)

lemma inv_start: "chan_inv f s0 (chan_start s0)"
  by (auto simp: chan_inv_def chan_start_def chan_defs intro: code_at.intros)

text \<open>A step of one thread changes its own code and, at most, whether it holds the lock.\<close>

lemma inv_update:
  assumes "chan_inv f s0 c" and "ch_code c' = (ch_code c)(t := k)" and "code_at t k"
    and "holds k \<longleftrightarrow> ch_owner c' = Some t" and "\<And>u. u \<noteq> t \<Longrightarrow> ch_owner c' = Some u \<longleftrightarrow> ch_owner c = Some u"
    and "agree (case ch_owner c' of None \<Rightarrow> [] | Some u \<Rightarrow> ch_code c' u) c'"
    and "t = 0 \<Longrightarrow> k = handler_code \<or> k = [Read, Loop, Unlock] \<Longrightarrow> ch_counter c' > 0"
    and "t \<noteq> 0 \<Longrightarrow> ch_counter c' \<ge> ch_counter c"
    and "\<exists>ds. ch_sent c' = ds @ ch_queue c' \<and> foldR f ds s0 = Inr (ch_state c')"
  shows "chan_inv f s0 c'"
proof -
  have "code_at u (ch_code c' u)" for u using assms(2,3) inv_code [OF assms(1)] by simp
  moreover have "holds (ch_code c' u) \<longleftrightarrow> ch_owner c' = Some u" for u
    using assms(2,4,5) inv_owner [OF assms(1)] by simp
  moreover have "ch_code c' 0 = handler_code \<or> ch_code c' 0 = [Read, Loop, Unlock] \<longrightarrow> ch_counter c' > 0"
    using assms(2,7,8) inv_counter [OF assms(1)] by (cases "t = 0") auto
  ultimately show ?thesis using assms(6,9) by (simp add: chan_inv_def)
qed

lemma agree_goto: "agree k' (goto t k c) = agree k' c"
  by (simp add: agree_def todo_def)

lemma inv_idle:
  assumes "chan_inv f s0 c" and "ch_code c t = []"
  shows "ch_owner c \<noteq> Some t"
  using inv_owner [OF assms(1), of t] assms(2) by simp

lemma inv_goto:
  assumes "chan_inv f s0 c" and "ch_code c t = []" and "code_at t k" and "\<not> holds k"
    and "k = handler_code \<Longrightarrow> ch_counter c > 0" and "k \<noteq> [Read, Loop, Unlock]"
  shows "chan_inv f s0 (goto t k c)"
proof (rule inv_update [OF assms(1), of _ t k])
  show "agree (case ch_owner (goto t k c) of None \<Rightarrow> [] | Some u \<Rightarrow> ch_code (goto t k c) u) (goto t k c)"
    using assms(1) inv_idle [OF assms(1,2)] by (auto simp: agree_goto chan_inv_def split: option.splits)
qed (use assms inv_idle [OF assms(1,2)] inv_served [OF assms(1)] in auto)

text \<open>One turn of the handler's loop.\<close>

lemma exec_LoopE:
  assumes "exec f Loop k t c = Some (Inr c')"
  obtains "ch_v c \<le> ch_count c" and "c' = goto t k c"
  | x q s where "ch_count c < ch_v c" and "ch_queue c = x # q" and "f x (ch_state c) = Inr s"
    and "c' = c\<lparr>ch_queue := q, ch_count := ch_count c + 1, ch_state := s\<rparr>"
  using assms by (auto split: if_splits list.splits)

text \<open>The thread whose next call is not the lock has it, so nobody else does.\<close>

lemma inv_holder:
  assumes "chan_inv f s0 c" and "ch_code c t = i # k" and "i \<noteq> Lock"
  shows "ch_owner c = Some t" and "agree (i # k) c"
  using inv_owner [OF assms(1), of t] inv_agree [OF assms(1), of t] assms(2,3) by auto

lemma inv_Loop:
  assumes I: "chan_inv f s0 c" and k: "ch_code c t = Loop # k" and x: "exec f Loop k t c = Some (Inr c')"
  shows "chan_inv f s0 c'"
proof -
  note C = inv_code [OF I, of t, unfolded k]
  note H = inv_holder [OF I k, simplified]
  have t: "t = 0" "k = [Unlock]" using code_at_next(5) [OF C] by simp_all
  obtain ds where S: "ch_sent c = ds @ ch_queue c" "foldR f ds s0 = Inr (ch_state c)" using inv_served [OF I] by auto
  show ?thesis
    using x
  proof (cases rule: exec_LoopE)
    case 1
    then show ?thesis using H S t code_at_tl [OF C]
      by (intro inv_update [OF I, of _ t k]) (auto simp: agree_def todo_def handler_code_def)
  next
    case (2 y q s)
    have "foldR f (ds @ [y]) s0 = Inr s" using S 2 by (simp add: foldR_append)
    then have "\<exists>ds. ch_sent c' = ds @ ch_queue c' \<and> foldR f ds s0 = Inr (ch_state c')"
      using S 2 by (intro exI [of _ "ds @ [y]"]) simp
    then show ?thesis using 2 H k t C
      by (intro inv_update [OF I, of _ t "Loop # k"]) (auto simp: agree_def todo_def handler_code_def)
  qed
qed

lemma inv_exec:
  assumes I: "chan_inv f s0 c" and k: "ch_code c t = i # k" and x: "exec f i k t c = Some (Inr c')"
  shows "chan_inv f s0 c'"
proof -
  note C = inv_code [OF I, of t, unfolded k]
  note H = inv_holder [OF I k]
  note S = inv_served [OF I]
  show ?thesis
  proof (cases i)
    case Lock
    then have "ch_owner c = None" and c': "c' = goto t k (c\<lparr>ch_owner := Some t\<rparr>)" using x by (auto split: if_splits)
    then show ?thesis using code_at_Lock [OF C [unfolded Lock]] code_at_tl [OF C] inv_free [OF I] inv_counter [OF I] S k Lock
      by (intro inv_update [OF I, of _ t k]) (auto simp: agree_def todo_def handler_code_def)
  next
    case (Push y)
    have "k = [Write, Unlock]" using C unfolding Push by (rule code_at_next)
    then show ?thesis using x H S code_at_tl [OF C] unfolding Push
      by (intro inv_update [OF I, of _ t k]) (auto simp: agree_def todo_def handler_code_def)
  next
    case Write
    have "k = [Unlock]" using C unfolding Write by (rule code_at_next)
    then show ?thesis using x H S code_at_tl [OF C] unfolding Write
      by (intro inv_update [OF I, of _ t k]) (auto simp: agree_def todo_def handler_code_def split: if_splits)
  next
    case Unlock
    have "k = []" using C unfolding Unlock by (rule code_at_next)
    then show ?thesis using x H S code_at_tl [OF C] unfolding Unlock
      by (intro inv_update [OF I, of _ t k]) (auto simp: agree_def todo_def handler_code_def)
  next
    case Read
    have "t = 0 \<and> k = [Loop, Unlock]" using C unfolding Read by (rule code_at_next)
    then show ?thesis using x H S code_at_tl [OF C] unfolding Read
      by (intro inv_update [OF I, of _ t k]) (auto simp: agree_def todo_def handler_code_def split: if_splits)
  next
    case Loop
    then show ?thesis using inv_Loop [OF I, of t k c'] k x by simp
  qed
qed

theorem chan_reach_inv: "chan_reach f s0 c \<Longrightarrow> chan_inv f s0 c"
proof (induction rule: chan_reach.induct)
  case (call c t x)
  then show ?case by (intro inv_goto) (auto simp: sender_code_def handler_code_def intro: code_at.intros(2) [unfolded sender_code_def])
next
  case (event c)
  then show ?case by (intro inv_goto) (auto simp: handler_code_def intro: code_at.intros(6) [unfolded handler_code_def])
next
  case (step c t c')
  then show ?case by (auto simp: thread_step_def intro: inv_exec split: list.splits)
qed (rule inv_start)

section \<open>One thread alone\<close>

fun alone :: "('a \<Rightarrow> 's \<Rightarrow> 's result) \<Rightarrow> nat \<Rightarrow> nat \<Rightarrow> ('a, 's) chan \<Rightarrow> ('a, 's) chan result option" where
  "alone f t 0 c = Some (Inr c)"
| "alone f t (Suc n) c = (case thread_step f t c of Some (Inr c') \<Rightarrow> alone f t n c' | r \<Rightarrow> r)"

lemma alone_reach:
  assumes "chan_reach f s0 c" and "alone f t n c = Some (Inr c')"
  shows "chan_reach f s0 c'"
  using assms
proof (induction n arbitrary: c)
  case (Suc n)
  from Suc.prems(2) obtain d where "thread_step f t c = Some (Inr d)" "alone f t n d = Some (Inr c')"
    by (auto split: option.splits sum.splits)
  with Suc.IH chan_reach.step [OF Suc.prems(1)] show ?case by blast
qed simp

lemma alone_step:
  assumes "thread_step f t c = Some (Inr d)"
  shows "alone f t (Suc n) c = alone f t n d"
  using assms by simp

text \<open>The sender gives the lock back after at most three calls, the handler after its loop.\<close>

definition released :: "('a \<Rightarrow> 's \<Rightarrow> 's result) \<Rightarrow> nat \<Rightarrow> nat \<Rightarrow> ('a, 's) chan \<Rightarrow> bool" where
  "released f t b c \<longleftrightarrow> (\<exists>n c'. n \<le> b \<and> alone f t n c = Some (Inr c') \<and> ch_owner c' = None \<and> ch_code c' t = [])"

lemma released_step:
  assumes "thread_step f t c = Some (Inr d)" and "released f t b d"
  shows "released f t (Suc b) c"
proof -
  obtain n c' where "n \<le> b" "alone f t n d = Some (Inr c')" "ch_owner c' = None" "ch_code c' t = []"
    using assms(2) by (auto simp: released_def)
  then show ?thesis unfolding released_def by (intro exI [of _ "Suc n"] exI [of _ c']) (simp add: assms(1))
qed

lemma released_mono: "released f t b c \<Longrightarrow> b \<le> b' \<Longrightarrow> released f t b' c"
  unfolding released_def using le_trans by blast

lemma released_Unlock: "ch_code c t = [Unlock] \<Longrightarrow> released f t 1 c"
  unfolding released_def
  by (intro exI [of _ 1] exI [of _ "goto t [] (c\<lparr>ch_owner := None\<rparr>)"]) (simp add: thread_step_def)

lemma released_Write:
  assumes "ch_code c t = [Write, Unlock]" and "ch_counter c < eventfd_max"
  shows "released f t 2 c"
  using assms released_step [OF _ released_Unlock, of f t c "goto t [Unlock] (c\<lparr>ch_counter := ch_counter c + 1\<rparr>)"]
  by (simp add: thread_step_def numeral_2_eq_2)

lemma released_Push:
  assumes "ch_code c t = [Push x, Write, Unlock]" and "ch_counter c < eventfd_max"
  shows "released f t 3 c"
  using assms released_step [OF _ released_Write, of f t c
    "goto t [Write, Unlock] (c\<lparr>ch_queue := ch_queue c @ [x], ch_sent := ch_sent c @ [x]\<rparr>)"]
  by (simp add: thread_step_def numeral_3_eq_3 numeral_2_eq_2)

text \<open>The work on what is queued returns, from the state the work has reached.\<close>

definition work_returns :: "('a \<Rightarrow> 's \<Rightarrow> 's result) \<Rightarrow> ('a, 's) chan \<Rightarrow> bool" where
  "work_returns f c \<longleftrightarrow> (\<exists>s. foldR f (ch_queue c) (ch_state c) = Inr s)"

lemma released_Loop:
  assumes "ch_code c t = [Loop, Unlock]" and "length (ch_queue c) = todo c" and "work_returns f c"
  shows "released f t (length (ch_queue c) + 2) c"
  using assms
proof (induction "ch_queue c" arbitrary: c)
  case Nil
  then show ?case using released_step [OF _ released_Unlock, of f t c "goto t [Unlock] c"]
    by (auto simp: thread_step_def todo_def numeral_2_eq_2)
next
  case (Cons x q)
  obtain s where s: "f x (ch_state c) = Inr s" "\<exists>s'. foldR f q s = Inr s'"
    using Cons.prems(3) Cons.hyps(2) [symmetric] by (auto simp: work_returns_def)
  define d where "d = c\<lparr>ch_queue := q, ch_count := ch_count c + 1, ch_state := s\<rparr>"
  have "thread_step f t c = Some (Inr d)"
    using Cons.prems Cons.hyps(2) [symmetric] s by (auto simp: thread_step_def todo_def d_def)
  note turn = this
  have "q = ch_queue d" "ch_code d t = [Loop, Unlock]" "length (ch_queue d) = todo d"
    using Cons.prems Cons.hyps(2) [symmetric] by (auto simp: d_def todo_def)
  moreover have "work_returns f d" using s(2) by (simp add: work_returns_def d_def)
  ultimately have "released f t (length q + 2) d" using Cons.hyps(1) [of d] by simp
  with turn show ?case using released_step Cons.hyps(2) [symmetric] by fastforce
qed

text \<open>The work of the program's handlers returns: for the two of the users on a heap whose blocks are owned by
  the table and the queued requests, for sending when the packets are well-formed, for the others always.\<close>

lemma work_returns_add_user:
  "heap_ok (fst (ch_state c)) (ch_queue c) (snd (ch_state c)) \<Longrightarrow> work_returns add_user_step c"
  using add_user_steps [of "fst (ch_state c)" "ch_queue c" "snd (ch_state c)"] by (auto simp: work_returns_def)

lemma work_returns_del_user:
  "heap_ok (fst (ch_state c)) q (snd (ch_state c)) \<Longrightarrow> work_returns del_user_step c"
  using del_user_steps [of "fst (ch_state c)" q "snd (ch_state c)" "ch_queue c"] by (auto simp: work_returns_def)

lemma work_returns_send:
  "list_all sendable (ch_queue c) \<Longrightarrow> work_returns (\<lambda>p dev. writePacket dev (inMemory p) (getLength p)) c"
  using send_packet_steps [of "ch_queue c" "ch_state c"] by (auto simp: work_returns_def)

lemma work_returns_total:
  "work_returns (\<lambda>data m. Inr (add_static_ip_step data m)) c" "work_returns (\<lambda>key m. Inr (um_erase (s_addr key) m)) c'"
  "work_returns (\<lambda>r temp. Inr (temp @ [r])) c''"
  by (simp_all add: work_returns_def foldR_total)

text \<open>A run used below: thread 1 sends \<open>x\<close> and holds the lock, then the handler serves it.\<close>

definition collect :: "nat \<Rightarrow> nat list \<Rightarrow> nat list result" where
  "collect x s = Inr (s @ [x])"

definition demo_sent :: "'a \<Rightarrow> 's \<Rightarrow> ('a, 's) chan" where
  "demo_sent x s =
     \<lparr>ch_owner = None, ch_counter = 1, ch_queue = [x], ch_code = (\<lambda>t. []), ch_v = 0, ch_count = 0,
      ch_state = s, ch_sent = [x]\<rparr>"

definition demo_push :: "'a \<Rightarrow> 's \<Rightarrow> ('a, 's) chan" where
  "demo_push x s = (chan_start s)\<lparr>ch_owner := Some 1, ch_code := (\<lambda>t. []) (1 := [Push x, Write, Unlock])\<rparr>"

definition demo_read :: "'a \<Rightarrow> 's \<Rightarrow> ('a, 's) chan" where
  "demo_read x s = (demo_sent x s)\<lparr>ch_owner := Some 0, ch_code := (\<lambda>t. []) (0 := [Read, Loop, Unlock])\<rparr>"

lemma demo_push_reach: "chan_reach f s (demo_push x s)"
proof -
  have "chan_reach f s (goto 1 (sender_code x) (chan_start s))"
    by (rule chan_reach.call [OF chan_reach.start]) (simp add: chan_start_def)
  from chan_reach.step [OF this, of 1 "demo_push x s"] show ?thesis
    by (simp add: thread_step_def sender_code_def demo_push_def chan_start_def goto_def)
qed

lemma demo_sent_reach: "chan_reach f s (demo_sent x s)"
  by (rule alone_reach [OF demo_push_reach, of f 1 3])
    (auto simp: numeral_3_eq_3 thread_step_def demo_push_def demo_sent_def chan_start_def goto_def eventfd_max_def fun_upd_def)

lemma demo_read_reach: "chan_reach f s (demo_read x s)"
proof -
  have "chan_reach f s (goto 0 handler_code (demo_sent x s))"
    by (rule chan_reach.event [OF demo_sent_reach]) (simp_all add: demo_sent_def)
  from chan_reach.step [OF this, of 0 "demo_read x s"] show ?thesis
    by (simp add: thread_step_def handler_code_def demo_read_def demo_sent_def goto_def)
qed

section \<open>Refinement of the atomic channel\<close>

text \<open>What the channel is, seen as an \<open>eventq\<close>: the requests the running handler has already claimed are served,
  and a request counts from its push.\<close>

definition chan_abs :: "('a \<Rightarrow> 's \<Rightarrow> 's result) \<Rightarrow> ('a, 's) chan \<Rightarrow> 'a eventq \<times> 's result" where
  "chan_abs f c =
     (let q = drop (todo c) (ch_queue c)
      in (\<lparr>pending = length q, requests = q\<rparr>, foldR f (take (todo c) (ch_queue c)) (ch_state c)))"

lemma chan_abs_free:
  assumes "chan_inv f s0 c" and "ch_owner c = None"
  shows "chan_abs f c = (\<lparr>pending = ch_counter c, requests = ch_queue c\<rparr>, Inr (ch_state c))"
  using inv_free [OF assms] by (simp add: chan_abs_def)

lemma chan_abs_Push:
  assumes "chan_inv f s0 c" and "ch_code c t = Push x # k" and "chan_abs f c = (q, r)"
    and "exec f (Push x) k t c = Some (Inr c')"
  shows "chan_abs f c' = (eq_push x q, r)"
  using assms(3,4) inv_holder [OF assms(1,2)] by (auto simp: chan_abs_def agree_def todo_def eq_push_def split: if_splits)

lemma chan_abs_Read:
  assumes I: "chan_inv f s0 c" and k: "ch_code c t = Read # k" and a: "chan_abs f c = (q, r)"
    and x: "exec f Read k t c = Some (Inr c')"
  shows "\<exists>s r'. r = Inr s \<and> chan_abs f c' = (eq_empty, r') \<and> eq_handle f q s = mapR (Pair eq_empty) r'"
proof -
  have n: "length (ch_queue c) = ch_counter c" "todo c = 0" using inv_holder [OF I k] by (simp_all add: agree_def)
  then have q: "q = \<lparr>pending = length (ch_queue c), requests = ch_queue c\<rparr>" "r = Inr (ch_state c)"
    using a by (simp_all add: chan_abs_def)
  have "chan_abs f c' = (eq_empty, foldR f (ch_queue c) (ch_state c))"
    using x n by (auto simp: chan_abs_def todo_def eq_empty_def split: if_splits)
  moreover have "eq_ok q" using q by (simp add: eq_ok_def)
  ultimately show ?thesis using q by (simp add: eq.handle_contents)
qed

lemma chan_abs_stutter:
  assumes I: "chan_inv f s0 c" and k: "ch_code c t = i # k" and x: "exec f i k t c = Some (Inr c')"
    and i: "i \<noteq> Read" "\<And>y. i \<noteq> Push y"
  shows "chan_abs f c' = chan_abs f c"
proof (cases "i = Loop")
  case True
  then have "length (ch_queue c) = todo c" using inv_holder [OF I k] code_at_next(5) [of t k] inv_code [OF I, of t] k
    by (simp add: agree_def)
  then show ?thesis using x unfolding True
    by (elim exec_LoopE) (auto simp: chan_abs_def todo_def Suc_diff_Suc)
next
  case False
  then show ?thesis using x i by (cases i) (auto simp: chan_abs_def todo_def split: if_splits)
qed

text \<open>
  C12: Running the senders and the handler of a request channel one call at a time, interleaved between any
  number of threads, refines the atomic channel: the push of a request \<open>x\<close> is the atomic \<open>eq_push x\<close>, the
  read of the counter is the atomic \<open>eq_handle\<close> with its whole work (failing when that work fails), every
  other call is invisible; and when the lock is free, the atomic channel is exactly the counter, the queue
  and the state that the work has reached.
\<close>

theorem channel_refines_atomic:
  assumes "chan_reach f s0 c" and "ch_code c t = i # k" and "chan_abs f c = (q, r)"
    and "thread_step f t c = Some (Inr c')"
  shows "(case i of
        Push x \<Rightarrow> chan_abs f c' = (eq_push x q, r)
      | Read \<Rightarrow> \<exists>s r'. r = Inr s \<and> chan_abs f c' = (eq_empty, r') \<and> eq_handle f q s = mapR (Pair eq_empty) r'
      | _ \<Rightarrow> chan_abs f c' = (q, r)) \<and>
    (ch_owner c' = None \<longrightarrow>
       chan_abs f c' = (\<lparr>pending = ch_counter c', requests = ch_queue c'\<rparr>, Inr (ch_state c')))"
proof
  note I = chan_reach_inv [OF assms(1)]
  have x: "exec f i k t c = Some (Inr c')" using assms(2,4) by (simp add: thread_step_def)
  note S = chan_abs_stutter [OF I assms(2) x]
  show "case i of
        Push x \<Rightarrow> chan_abs f c' = (eq_push x q, r)
      | Read \<Rightarrow> \<exists>s r'. r = Inr s \<and> chan_abs f c' = (eq_empty, r') \<and> eq_handle f q s = mapR (Pair eq_empty) r'
      | _ \<Rightarrow> chan_abs f c' = (q, r)"
    using S chan_abs_Push [OF I _ assms(3)] chan_abs_Read [OF I _ assms(3)] assms(2,3) x
    by (cases i) (auto simp del: exec.simps)
  show "ch_owner c' = None \<longrightarrow>
      chan_abs f c' = (\<lparr>pending = ch_counter c', requests = ch_queue c'\<rparr>, Inr (ch_state c'))"
    using chan_abs_free [OF inv_exec [OF I assms(2) x]] by simp
qed

theorem channel_refines_atomic_witness:
  "\<exists>r'. chan_abs collect (goto 0 [Loop, Unlock] ((demo_read 7 [])\<lparr>ch_v := 1, ch_count := 0, ch_counter := 0\<rparr>)) = (eq_empty, r') \<and>
     eq_handle collect (fst (chan_abs collect (demo_read 7 []))) [] = mapR (Pair eq_empty) r'"
proof -
  have "thread_step collect 0 (demo_read 7 []) =
      Some (Inr (goto 0 [Loop, Unlock] ((demo_read 7 [])\<lparr>ch_v := 1, ch_count := 0, ch_counter := 0\<rparr>)))"
    by (simp add: thread_step_def demo_read_def demo_sent_def)
  from channel_refines_atomic [OF demo_read_reach _ surjective_pairing this, of Read "[Loop, Unlock]"]
  show ?thesis by (auto simp: demo_read_def demo_sent_def chan_abs_def todo_def)
qed

section \<open>Exclusion and progress\<close>

text \<open>
  C19: Whatever the interleaving, at most one thread is between its lock and its unlock, and it is the owner
  of the mutex, so the queue is never touched by two threads; the requests are worked on in the order
  they were pushed, each once; and a call faults only where the handler's own work on a request does: the
  handler never takes the front of an empty queue.
\<close>

theorem channel_exclusive:
  assumes "chan_reach f s0 c"
  shows "(holds (ch_code c t) \<longleftrightarrow> ch_owner c = Some t) \<and>
    (\<exists>ds. ch_sent c = ds @ ch_queue c \<and> foldR f ds s0 = Inr (ch_state c)) \<and>
    (thread_step f t c = Some (Inl e) \<longrightarrow> (\<exists>x q. ch_queue c = x # q \<and> f x (ch_state c) = Inl e))"
proof (intro conjI impI)
  note I = chan_reach_inv [OF assms]
  show "holds (ch_code c t) \<longleftrightarrow> ch_owner c = Some t" by (rule inv_owner [OF I])
  show "\<exists>ds. ch_sent c = ds @ ch_queue c \<and> foldR f ds s0 = Inr (ch_state c)" by (rule inv_served [OF I])
  assume "thread_step f t c = Some (Inl e)"
  then obtain i k where k: "ch_code c t = i # k" and x: "exec f i k t c = Some (Inl e)"
    by (auto simp: thread_step_def split: list.splits)
  then have i: "i = Loop" by (cases i) (auto split: if_splits)
  have "length (ch_queue c) = todo c"
    using inv_holder [OF I k] code_at_next(5) [of t k] inv_code [OF I, of t] k i by (simp add: agree_def)
  then show "\<exists>x q. ch_queue c = x # q \<and> f x (ch_state c) = Inl e"
    using x i by (auto simp: todo_def mapR_def bindR_def split: if_splits list.splits sum.splits)
qed

theorem channel_exclusive_witness:
  "\<not> holds (ch_code (demo_read 7 []) 1) \<and> (\<exists>ds. ch_sent (demo_read 7 []) = ds @ [7] \<and> foldR collect ds [] = Inr [])"
  using channel_exclusive [OF demo_read_reach [of collect "[]" 7], of 1] by (simp add: demo_read_def demo_sent_def)

text \<open>
  C20: The lock is given back. In every reachable state in which a thread holds the mutex, that thread
  alone, with no help of the others, releases it and finishes its call within \<open>length (ch_queue c) + 4\<close>
  calls, on two conditions: the counter of the \<^verbatim>\<open>eventfd\<close> is below its maximum, for otherwise the write of a
  sender blocks; and, when the thread is the handler's, its work on the queued requests returns from the state it
  has reached. The second holds of every handler of the program: of the ones for new and removed users on a
  consistent heap, of sending for well-formed packets, of the others always.
\<close>

theorem channel_lock_released:
  assumes "chan_reach f s0 c" and "ch_owner c = Some t" and "ch_counter c < eventfd_max"
    and "t = 0 \<Longrightarrow> work_returns f c"
  shows "\<exists>n c'. n \<le> length (ch_queue c) + 4 \<and> alone f t n c = Some (Inr c') \<and>
    ch_owner c' = None \<and> ch_code c' t = []"
proof -
  note I = chan_reach_inv [OF assms(1)]
  have h: "holds (ch_code c t)" using inv_owner [OF I] assms(2) by simp
  note A = inv_agree [OF I assms(2)]
  have "released f t (length (ch_queue c) + 4) c"
    using inv_code [OF I, of t]
  proof (cases rule: code_at.cases)
    case (3 x)
    then show ?thesis using assms(3) by (intro released_mono [OF released_Push]) simp_all
  next
    case 4
    then show ?thesis using assms(3) by (intro released_mono [OF released_Write]) simp_all
  next
    case 5
    then show ?thesis by (intro released_mono [OF released_Unlock]) simp_all
  next
    case 7
    then have c: "ch_code c t = [Read, Loop, Unlock]" by simp
    define d where "d = goto t [Loop, Unlock] (c\<lparr>ch_v := ch_counter c, ch_count := 0, ch_counter := 0\<rparr>)"
    have "thread_step f t c = Some (Inr d)" using c inv_counter [OF I] 7 by (auto simp: thread_step_def d_def)
    moreover have "released f t (length (ch_queue d) + 2) d"
      using released_Loop [of d t f] assms(4) 7 A c by (simp add: d_def todo_def agree_def work_returns_def)
    ultimately show ?thesis using released_mono [OF released_step] by (fastforce simp: d_def)
  next
    case 8
    then show ?thesis using assms(4) A by (intro released_mono [OF released_Loop]) (simp_all add: agree_def)
  qed (use h in simp_all)
  then show ?thesis by (simp add: released_def)
qed

text \<open>The handler for new users, which replaces the user of an address by the one asked for.\<close>

theorem channel_lock_released_witness:
  "\<exists>n c'. n \<le> 5 \<and> alone add_user_step 0 n (demo_read 2 ([(5, 1)], [(1, info_a), (2, info_b)])) = Some (Inr c') \<and>
    ch_owner c' = None \<and> ch_code c' 0 = []"
proof -
  let ?c = "demo_read 2 ([(5, 1)], [(1, info_a), (2, info_b)])"
  have c: "ch_owner ?c = Some 0" "ch_counter ?c < eventfd_max" "length (ch_queue ?c) + 4 = 5"
    by (simp_all add: demo_read_def demo_sent_def eventfd_max_def)
  have "heap_ok (fst (ch_state ?c)) (ch_queue ?c) (snd (ch_state ?c))"
    using sample_gateway_ok by (simp add: demo_read_def demo_sent_def gateway_ok_def sample_gateway_def)
  from channel_lock_released [OF demo_read_reach c(1,2) work_returns_add_user [OF this]] show ?thesis
    unfolding c(3) .
qed

end
