(* ===== verification/Spec2Isabelle.thy ===== *)
theory Spec2Isabelle
  imports Shutdown Channel_Locks
begin

text \<open>
  A verification of the gateway of \<^verbatim>\<open>src/gateway-socket\<close>: a bridge between an inside and an outside
  network interface that lets only registered users out, rewrites hardware addresses, answers
  the DHCP requests of the inside itself and keeps leases and access times in an SQL database.

  \<^bold>\<open>The program.\<close> \<^verbatim>\<open>main.cpp\<close> reads the options, waits for the database server, builds one \<^verbatim>\<open>Database\<close>
  and one \<^verbatim>\<open>Gateway\<close>, loads the tables and starts two threads. The forwarding thread (\<^verbatim>\<open>Gateway::serve\<close>)
  alternates between bursts of frames from the inside, bursts from the outside, and one pass of an event
  library that runs the handlers of five request queues. The database thread (\<^verbatim>\<open>Database::serve\<close>) runs the
  handlers of two queues. Threads talk only through these queues: a frame may queue a DHCP request
  or an access-time update for the database; the database may queue a user to add or remove and a packet to
  send for the gateway. Frames are edited in place through the classes \<^verbatim>\<open>Packet\<close>, \<^verbatim>\<open>Ethernet\<close>, \<^verbatim>\<open>IP\<close>, \<^verbatim>\<open>ARP\<close>,
  \<^verbatim>\<open>UDP\<close> and \<^verbatim>\<open>DHCP\<close>, and come from and go to raw sockets of class \<^verbatim>\<open>Device\<close>.

  \<^bold>\<open>The theories.\<close> Every operation of the code is a function with its name, prefixed by its class where names
  clash; a void method returns the changed object. Faults are values: \<open>result\<close> is a sum whose left side is
  \<open>Exit\<close> for \<^verbatim>\<open>exit(1)\<close>, \<open>UncaughtException\<close>, or an undefined behaviour the code could run into (access out of bounds,
  uninitialised read, end iterator, front of an empty queue, null or dangling pointer).
  \<^item> \<open>Prelude\<close>: words of 8 to 64 bits, byte order, faults, addresses, and the lemma collections \<open>wire\<close>
    (reading and writing header fields) and \<open>sizes\<close> (the constants of the system headers).
  \<^item> \<open>Packet\<close> (\<^verbatim>\<open>packet.cpp\<close>): the buffer record and its bounds-checked access; the locale \<open>packet_field\<close> is
    the contract of a header field (what is set is read back, the rest is untouched) and is interpreted for
    every field of \<open>Ethernet\<close>, \<open>IPv4\<close>, \<open>ARP\<close> and \<open>UDP\<close>, the theories of the classes in \<^verbatim>\<open>ethernet.cpp\<close>,
    \<^verbatim>\<open>ip.cpp\<close>, \<^verbatim>\<open>arp.cpp\<close> and \<^verbatim>\<open>udp.cpp\<close>. \<open>Ethernet\<close> has the text form of hardware addresses, \<open>UDP\<close> the building of
    a whole frame. \<open>Checksum\<close> has the one's complement sum of \<^verbatim>\<open>gateway.cpp\<close> against its arithmetic
    meaning. \<open>DHCP\<close> (\<^verbatim>\<open>dhcp.cpp\<close>) has the getters and the answer against a byte-for-byte message with an
    option parser.
  \<^item> \<open>Device\<close> (\<^verbatim>\<open>socket.cpp\<close>): opening, closing, reading with the filter on foreign packets, writing. The kernel is the
    list of answers it gives; what is sent is a list.
  \<^item> \<open>Unordered_Map\<close> and \<open>Event_Queue\<close>: the containers, with the locales \<open>hash_map\<close> and \<open>request_channel\<close> as the
    contracts their users rely on, interpreted on association lists and on a queue with its event counter.
    \<open>Channel_Locks\<close> runs the code of the senders and of the handlers one call at a time, with the mutex as an
    object, interleaved between any number of threads, and justifies taking a channel operation as one step.
  \<^item> \<open>Database_State\<close> (\<^verbatim>\<open>database.hh\<close>): requests, tables, and the two operations the gateway calls.
  \<^item> \<open>ICMP\<close>, \<open>Gateway\<close>, \<open>Gateway_Serve\<close> (\<^verbatim>\<open>gateway.cpp\<close>): the answer to frames that are too long; the object, its
    channels and handlers with user blocks on an explicit heap; the loop \<^verbatim>\<open>serve\<close>.
  \<^item> \<open>Frame_View\<close>, \<open>Filter_Spec\<close>, \<open>Gateway_Filter\<close>, \<open>Gateway_Policy\<close>: frames as byte lists, the policy as a function from
    the two tables and a frame to what is sent, the refinement of the loop body to it, and its
    consequences. \<open>Gateway_Loop\<close>: the invariant of the whole loop.
  \<^item> \<open>Inet\<close>, \<open>Database\<close>, \<open>Database_Props\<close>, \<open>Database_Policy\<close> (\<^verbatim>\<open>database.cpp\<close>): address texts; the statements as
    functions on the tables, the handlers, loading, construction and the loop; the lease policy over the locale
    \<open>lease_table\<close>, interpreted on the statements.
  \<^item> \<open>Getopt\<close>: the option tables of \<^verbatim>\<open>main.cpp\<close> and the \<^verbatim>\<open>getopt_long\<close> of the C library on the words of the command
    line. \<open>Resources\<close>: the calls by which the constructors and destructors take and release mutexes, descriptors,
    statements and events, and a ledger that replays them.
  \<^item> \<open>Main_Program\<close>, \<open>Main_Props\<close> (\<^verbatim>\<open>main.cpp\<close>): options, daemon, waiting, both constructors with all failing calls,
    both destructors, loading, signals. \<open>Shutdown\<close>: the balance of the end of \<^verbatim>\<open>main\<close>.
  \<^item> \<open>System\<close>: the two threads, signals, the two deletions at the end of \<^verbatim>\<open>main\<close> and the edits of other clients
    of the database server as an interleaving of labelled steps, reachability under a rely on the steps, and the
    invariant of all reachable states. The properties of the whole program are in this theory.

  \<^bold>\<open>What is shown.\<close> Bytes: header fields are read back and do not disturb each other; the frame and both checksums
  \<^verbatim>\<open>makePacket\<close> writes, the message \<^verbatim>\<open>writeResponse\<close> writes, and the ICMP answer are exactly the specified ones.
  The buffer acts as a byte array, and the calls that leave it are named.
  Policy: both halves of the loop implement the filter specification, from which it follows that a static source
  address is used only by its registered user, that traffic between inside hosts stays inside, and that
  impostors and foreign DHCP servers are dropped. State: user blocks are allocated and freed without leak or
  double free; queues are served in order and never run empty, and the mutex of a channel keeps its threads
  apart and is given back when the work of its handler returns, as that of every handler does. Database: the answer to each request, the address choice, that no address is
  held twice, what an access-time update does, and the lease time clients read. Start: the command line is read
  as it was meant, accepted options, the end of the wait, the arrival of the tables. Whole program: no
  interleaving faults but for a signal that comes when \<^verbatim>\<open>main\<close> has begun to delete its objects, an accepted client
  becomes a user unless its address is leased again before, a signal reaches both loops, and after any run
  the end of \<^verbatim>\<open>main\<close> releases everything but the stated rest.

  \<^bold>\<open>Bounds and termination.\<close> All functions are total. The loops over bytes, rows, queues and
  name servers recurse over their data; the wait recurses with a measure on the remaining tries;
  \<^verbatim>\<open>readPacket\<close> recurses over the answers the kernel gives and a burst over its 32
  turns. The endless loops of the threads are functions of a list of turns, for every such list, or steps of the
  system, for every reachable state. The words of the command line are consumed with a measure on their number;
  a lock is given back within the number of queued requests plus four calls. A DHCP answer is shown to fit for
  up to 299 name servers, the number the frame has room for.

  \<^bold>\<open>Assumed of the environment\<close>, as hypotheses of the theorems: a frame the kernel delivers fits the buffer and no ARP
  frame is cut short (without this the code reads uninitialised addresses, shown separately); the allocator
  answers, except where a null pointer is the subject; string comparison in the tables is an equivalence that
  identifies only texts of the same address. Whether an update counts matched or changed rows is a parameter, and
  the properties hold for both. The tables belong to the database server: other clients may replace them between
  any two steps of the system, and are relied on only to add no address that the gateway did not load at its start
  (\<^const>\<open>edit_granted\<close>; the lemma \<open>late_address_unserved\<close> shows that this cannot be dropped) and, where leases are
  the subject, to leave no address held twice (\<^const>\<open>edit_keeps_leases\<close>).

  \<^bold>\<open>Not modelled.\<close> The SQL connector, the event library and the kernel beyond what is said above; log lines, the help text
  and sleeping; the freeing of packets that are passed as values; the exit status; edits of the tables between two
  statements of one request. Lengths and positions of packets are unbounded integers, exact for buffers of less than
  \<open>2 ^ 28\<close> bytes; the one product of the code on them is taken at its 32 bits. \<open>System\<close> takes each channel
  operation as one step, which \<open>Channel_Locks\<close> justifies. Makefiles, the schema drawing and the device list hold no
  code.
\<close>

section \<open>A system waiting for a request\<close>

definition idle_gateway :: gateway where
  "idle_gateway = (Gateway_new (sample_dev\<lparr>rx := []\<rparr>) (sample_dev\<lparr>rx := []\<rparr>))
     \<lparr>staticIPMap := [(inet_addr ''10.0.0.9'', mac_new)]\<rparr>"

definition waiting_system :: system where
  "waiting_system = (boot small_db idle_gateway (replicate 1514 0) (replicate 1514 0))\<lparr>dhcp_work := [ask False]\<rparr>"

lemma idle_gateway_ok: "gateway_ok idle_gateway" "heap idle_gateway = um_empty" "registered idle_gateway = Map.empty"
  "requested idle_gateway = []"
proof -
  show "gateway_ok idle_gateway"
    using Gateway_new_ok [of "sample_dev\<lparr>rx := []\<rparr>" "sample_dev\<lparr>rx := []\<rparr>"]
    by (simp add: idle_gateway_def gateway_ok_def um_ok_def)
qed (simp_all add: idle_gateway_def Gateway_new_def registered_def requested_def user_view_pair blocks_def
    eq.contents_empty um.find_empty fun_eq_iff)

lemma waiting_ok: "sys_ok waiting_system"
proof -
  have fed: "fed_ok idle_gateway"
    using idle_gateway_ok by (simp add: fed_ok_def) (simp add: idle_gateway_def Gateway_new_def eq.contents_empty)
  have stat: "users_static idle_gateway" using users_static_registered idle_gateway_ok(1,3) by simp
  have kn: "known idle_gateway (inet_addr ''10.0.0.9'')" by (simp add: known_def statics_of_def idle_gateway_def)
  have db: "channels_ok small_db" "static_ip small_db = [pool_row]" "sr_ip pool_row = ''10.0.0.9''"
    by (simp_all add: small_db_def Database_new_def channels_ok_def eq.invar_empty pool_row_def)
  have wire: "wire_ok (inDev idle_gateway)" "wire_ok (outDev idle_gateway)"
    by (simp_all add: idle_gateway_def Gateway_new_def wire_ok_def)
  show ?thesis
    using fed stat kn db wire small_dns
    by (simp add: sys_ok_def waiting_system_def boot_def base_ok_def stage_ok_def table_known_def buffer_ok_def sizes)
qed

lemma exact_addr: "addr_collation exact"
  by (simp add: addr_collation_def exact_def)

text \<open>The rely on the edits cannot be dropped: after another client has added an address, its first lease registers a
  user without a static entry, and the next frame of this user makes the loop use an end iterator.\<close>

definition late_row :: static_ip_row where
  "late_row = pool_row\<lparr>sr_ip := ''10.0.0.77''\<rparr>"

lemma late_lease:
  "\<exists>d1. lease exact (de_now (calm 1)) (dr_mac (ask False)) (small_db\<lparr>static_ip := [late_row]\<rparr>) = Some (''10.0.0.77'', d1) \<and>
    selectMACwithIP exact ''10.0.0.77'' d1 \<noteq> []"
  by (simp add: lease_def selectUserIPfromMAC_def selectUnusedDynamicIP_def selectUsingDynamicIP_def has_ip_def
      small_db_def Database_new_def exact_def pool_row_def late_row_def mac_buf_text two_macs
      selectMACwithIP_def insertDynamic_def deleteDynamic_def)

lemma late_addr: "inet_addr ''10.0.0.77'' \<noteq> inet_addr ''10.0.0.9''"
  by (simp add: inet_addr_def read_parts.simps read_number_def digit_value_def host_addr_def htonl_def
      bytes32_def numeral_3_eq_3 is_space_def)

lemma late_address_unserved:
  "\<exists>s. reachable_by memory_granted exact (waiting_system\<lparr>mode := Dispatching [H_add_user]\<rparr>) s \<and> mode s = Forwarding \<and>
    registered (gw (srv s)) (inet_addr ''10.0.0.77'') \<noteq> None \<and> statics_of (gw (srv s)) (inet_addr ''10.0.0.77'') = None"
proof -
  let ?s0 = "waiting_system\<lparr>mode := Dispatching [H_add_user]\<rparr>" and ?R = "reachable_by memory_granted exact"
  let ?d = "small_db\<lparr>static_ip := [late_row]\<rparr>" and ?e = "Edit [late_row] (user small_db)"
  let ?s1 = "?s0\<lparr>srv := set_tables [late_row] (user small_db) (srv ?s0)\<rparr>"
  have 1: "?R ?s0 ?s1" by (rule reach_step [OF reach_start, of ?e]) (simp_all add: memory_granted_def)
  have f: "db (srv ?s1) = ?d" "gw (srv ?s1) = idle_gateway" "dhcp_work ?s1 = [ask False]" "mode ?s1 = Dispatching [H_add_user]"
    by (simp_all add: waiting_system_def boot_def set_tables_def)
  obtain d1 where l: "lease exact (de_now (calm 1)) (dr_mac (ask False)) ?d = Some (''10.0.0.77'', d1)"
    "selectMACwithIP exact ''10.0.0.77'' d1 \<noteq> []" using late_lease by blast
  have e: "dhcp_env_ok (calm 1) idle_gateway" "length (dnsList ?d) \<le> 299"
    using small_dns by (simp_all add: dhcp_env_ok_def memory_ok_def idle_gateway_ok) (simp add: calm_def um.find_empty)
  from create_dhcp_one_leased [OF e(1) idle_gateway_ok(1) e(2) l] obtain g1 p where
    g1: "create_dhcp_one exact (calm 1) (ask False) (?d, idle_gateway) = Inr (d1, g1)"
      "queues_answer (calm 1) (admitted (ask False) (lease_addr ''10.0.0.77'') ?d) p idle_gateway g1" by blast
  let ?s2 = "?s1\<lparr>srv := with_both (d1, g1) (srv ?s1), dhcp_work := []\<rparr>"
  have "run exact (Serve_dhcp (calm 1)) ?s1 = Inr ?s2" using g1(1) f by simp
  then have 2: "?R ?s0 ?s2"
    using e(1) f by (intro reach_step [OF 1, of "Serve_dhcp (calm 1)"]) (simp_all add: memory_granted_def dhcp_env_ok_def del: run.simps)
  have "gateway_ok g1" using g1(2) by (simp add: queues_answer_def)
  from first_users [OF this] obtain g2 where
    g2: "event_step H_add_user g1 = Inr g2" "statics_of g2 = statics_of g1"
      "registered g2 = registered g1 ++ map_of (rev (map (\<lambda>i. (s_addr (ui_ip i), i)) (requested g1)))" by blast
  have req: "requested g1 = [lease_info (ask False) (lease_addr ''10.0.0.77'') ?d]" "statics_of g1 = statics_of idle_gateway"
    using g1(2) idle_gateway_ok(4) by (simp_all add: queues_answer_def admitted_def statics_of_def ask_def)
  let ?s3 = "?s2\<lparr>srv := with_gw g2 (srv ?s2), mode := Dispatching []\<rparr>"
  have 3: "?R ?s0 ?s3"
    using g2(1) f(4) by (intro reach_step [OF 2, of Dispatch]) (simp_all add: memory_granted_def with_both_def)
  have 4: "?R ?s0 (?s3\<lparr>mode := Forwarding\<rparr>)"
    by (rule reach_step [OF 3, of Dispatch]) (simp_all add: memory_granted_def)
  have "registered g2 (inet_addr ''10.0.0.77'') \<noteq> None"
    by (simp add: g2(3) req(1) lease_info_def lease_addr_def)
  moreover have "statics_of g2 (inet_addr ''10.0.0.77'') = None"
    unfolding g2(2) req(2) using late_addr by (simp add: statics_of_def idle_gateway_def)
  ultimately show ?thesis using 4 by (intro exI [of _ "?s3\<lparr>mode := Forwarding\<rparr>"]) (simp add: with_gw_def)
qed

section \<open>Properties of the whole program\<close>

text \<open>
  C3: No interleaving faults, but for a late signal. The program is started on readable tables whose users have
  addresses of the address table, in an environment that lets it start, with a database server whose string
  comparison keeps addresses apart, at most 299 name servers, and networks whose frames fit the buffers and on
  which no ARP frame is cut short. Take any state that some interleaving of frames, event handlers, database
  requests, signals, the deletions at the end of \<^verbatim>\<open>main\<close> and edits of both tables by other clients of the server
  reaches. The rely on the steps is \<^const>\<open>granted\<close>: the allocator answers, and an edit adds no address the gateway
  did not load at its start (\<open>late_address_unserved\<close> shows what happens otherwise). Edits fall between the steps, and may otherwise leave any rows. Then every possible next
  step succeeds: no read of uninitialised memory, no access out of bounds, no end iterator, null pointer or empty
  queue. There are two exceptions. A DHCP request whose statement throws ends the process, and a signal after
  \<^verbatim>\<open>main\<close> has begun to delete its objects uses a deleted one, for the global pointers of the handler are not reset.
\<close>

theorem system_never_faults:
  assumes "start_ok se (length users)" and "names_ok o1" and "tables_readable statics users"
    and "users_in_table statics users" and "wires_fit se"
    and "length (opt_dnsList o1) \<le> 299" and "length m1 = 1514" and "length m2 = 1514"
    and "addr_collation env"
  shows "\<exists>g. start se o1 statics users = Inr (loaded_db o1 statics users, g) \<and> \<not> gotExit g \<and>
    (\<forall>s l. reachable env (boot (loaded_db o1 statics users) g m1 m2) s \<longrightarrow> enabled l s \<longrightarrow> granted l s \<longrightarrow>
      (if l = Signal \<and> main_at s \<noteq> Joining then run env l s = Inl DanglingPointer
       else statement_failed l \<and> run env l s = Inl Exit \<or> (\<exists>s'. run env l s = Inr s')))"
proof -
  from boot_ok [OF assms(1-8)] obtain g where
    g: "start se o1 statics users = Inr (loaded_db o1 statics users, g)" "\<not> gotExit g"
      "sys_ok (boot (loaded_db o1 statics users) g m1 m2)" by blast
  have "if l = Signal \<and> main_at s \<noteq> Joining then run env l s = Inl DanglingPointer
      else statement_failed l \<and> run env l s = Inl Exit \<or> (\<exists>s'. run env l s = Inr s')"
    if "reachable env (boot (loaded_db o1 statics users) g m1 m2) s" "enabled l s" "granted l s" for s l
  proof -
    have ok: "sys_ok s" by (rule reachable_ok [OF that(1) g(3) assms(9)])
    show ?thesis
      using step_ok [OF ok assms(9) that(2,3)] signal_ok(2) [OF ok, of env] by (auto simp del: run.simps)
  qed
  with g(1,2) show ?thesis by blast
qed

lemma good_tables:
  "users_in_table [good_row] [good_user]" "wires_fit good_start" "length (opt_dnsList good_options) \<le> 299"
  by (simp_all add: users_in_table_def good_row_def good_user_def wires_fit_def good_start_def good_options_def)

theorem system_never_faults_witness:
  "\<exists>g s1 s2. start good_start good_options [good_row] [good_user] = Inr (loaded_db good_options [good_row] [good_user], g) \<and>
    run exact (Edit [] [good_user, good_user])
      (boot (loaded_db good_options [good_row] [good_user]) g (replicate 1514 0) (replicate 1514 0)) = Inr s1 \<and>
    run exact (Read_inside 100 (Some (replicate 70 0))) s1 = Inr s2"
proof -
  let ?d = "loaded_db good_options [good_row] [good_user]" and ?m = "replicate 1514 0 :: byte list"
  let ?e = "Edit [] [good_user, good_user]" and ?l = "Read_inside 100 (Some (replicate 70 0))"
  have "length ?m = 1514" by simp
  from system_never_faults [OF good_start_ok good_tables this this exact_addr] obtain g where
    g: "start good_start good_options [good_row] [good_user] = Inr (?d, g)" "\<not> gotExit g"
      "\<forall>s l. reachable exact (boot ?d g ?m ?m) s \<longrightarrow> enabled l s \<longrightarrow> granted l s \<longrightarrow>
        (if l = Signal \<and> main_at s \<noteq> Joining then run exact l s = Inl DanglingPointer
         else statement_failed l \<and> run exact l s = Inl Exit \<or> (\<exists>s'. run exact l s = Inr s'))" by blast
  let ?s = "boot ?d g ?m ?m" and ?s1 = "(boot ?d g ?m ?m)\<lparr>srv := set_tables [] [good_user, good_user] (srv (boot ?d g ?m ?m))\<rparr>"
  have e: "run exact ?e ?s = Inr ?s1" by simp
  have "reachable exact ?s ?s1"
    using e by (intro reach_step [of granted exact ?s ?s ?e ?s1] reach_start) simp_all
  moreover have "enabled ?l ?s1" "granted ?l ?s1" "\<not> statement_failed ?l" "?l \<noteq> Signal"
    using g(2) by (simp_all add: boot_def set_tables_def icmp_block_def statement_failed_def)
  ultimately have "\<exists>s2. run exact ?l ?s1 = Inr s2" using g(3) [rule_format, of ?s1 ?l] by (simp del: run.simps)
  with g(1) e show ?thesis by blast
qed

text \<open>
  C21: What holds in every state reachable from one that satisfies the invariant of the system, whatever other clients leave in the tables, as long as
  they add no address the gateway did not load: every allocated user block is owned by exactly one table entry or
  one pending request, every queue agrees with its counter, and whenever the forwarding thread is about to handle
  a frame, every registered user's address has a static entry. And no two clients hold the same address,
  as long as the edits of the other clients leave a table in which this is so.
\<close>

theorem reachable_invariant:
  assumes "sys_ok s0" and "collation env" and "addr_collation env"
  shows "(\<forall>s. reachable env s0 s \<longrightarrow> gateway_ok (gw (srv s)) \<and> channels_ok (db (srv s)) \<and>
      (\<forall>k. mode s = Forwarding \<longrightarrow> registered (gw (srv s)) k \<noteq> None \<longrightarrow> statics_of (gw (srv s)) k \<noteq> None)) \<and>
    (\<forall>s. reachable_by (\<lambda>l s. granted l s \<and> edit_keeps_leases env l s) env s0 s \<longrightarrow>
      leases_ok env (db (srv s0)) \<longrightarrow> leases_ok env (db (srv s)))"
proof (intro conjI allI impI)
  fix s assume "reachable env s0 s"
  then have ok: "sys_ok s" by (rule reachable_ok [OF _ assms(1,3)])
  then show g: "gateway_ok (gw (srv s))" and "channels_ok (db (srv s))"
    by (simp_all add: sys_ok_def base_ok_def fed_ok_def)
  show "statics_of (gw (srv s)) k \<noteq> None" if "mode s = Forwarding" "registered (gw (srv s)) k \<noteq> None" for k
    using that ok users_static_registered [OF g] by (simp add: sys_ok_def stage_ok_def)
next
  fix s assume "reachable_by (\<lambda>l s. granted l s \<and> edit_keeps_leases env l s) env s0 s" "leases_ok env (db (srv s0))"
  then show "leases_ok env (db (srv s))" by (rule reachable_leases [OF _ assms])
qed

theorem reachable_invariant_witness:
  "\<exists>s. run exact (Edit [] []) waiting_system = Inr s \<and> leases_ok exact (db (srv s)) \<and> gateway_ok (gw (srv s))"
proof -
  let ?s = "waiting_system\<lparr>srv := set_tables [] [] (srv waiting_system)\<rparr>"
  have s: "run exact (Edit [] []) waiting_system = Inr ?s" by simp
  have k: "granted (Edit [] []) waiting_system" "edit_keeps_leases exact (Edit [] []) waiting_system"
    by (simp_all add: edit_keeps_leases_def leases_ok_def)
  have "reachable exact waiting_system ?s"
    using k(1) s by (intro reach_step [of granted exact waiting_system waiting_system "Edit [] []" ?s] reach_start) simp_all
  moreover have "reachable_by (\<lambda>l s. granted l s \<and> edit_keeps_leases exact l s) exact waiting_system ?s"
    using k s by (intro reach_step [of "\<lambda>l s. granted l s \<and> edit_keeps_leases exact l s" exact waiting_system
      waiting_system "Edit [] []" ?s] reach_start) simp_all
  moreover have "leases_ok exact (db (srv waiting_system))" using small_leases by (simp add: waiting_system_def boot_def)
  ultimately show ?thesis using reachable_invariant [OF waiting_ok exact_collation exact_addr] s by blast
qed

text \<open>
  C11: A client whose DHCP request is accepted becomes a user. In a state that satisfies the invariant, serving its REQUEST queues the ACK for the leased
  address and asks the gateway to register the client. Whatever happens then up to the next run of the user
  handler, other requests and edits of the tables included, the request stays, in its place in the order, and keeps
  the handler ready; and that run registers under the leased address the last user asked for there. This is the
  client with its hardware address, replacing whoever was registered there, unless in between the database
  thread has leased the same address to another client, who was then asked for later.
\<close>

theorem dhcp_ack_admits_client:
  assumes "sys_ok s" and "addr_collation env" and "dhcp_work s = r # rs"
    and "\<not> dr_isDiscover r" and "lease env (de_now e) (dr_mac r) (db (srv s)) = Some (a, d1)"
    and "selectMACwithIP env a d1 \<noteq> []" and "dhcp_env_ok e (gw (srv s))"
  shows "\<exists>s1 p gap. run env (Serve_dhcp e) s = Inr s1 \<and>
    requests (sendPacketRequestQueue (gw (srv s1))) = requests (sendPacketRequestQueue (gw (srv s))) @ [p] \<and>
    frame p = dhcp_answer gap r (lease_addr a) (db (srv s)) \<and>
    requested (gw (srv s1)) = requested (gw (srv s)) @ [lease_info r (lease_addr a) (db (srv s))] \<and>
    (\<forall>s2. reachable_by (\<lambda>l s. granted l s \<and> \<not> runs_add_user l s) env s1 s2 \<longrightarrow>
      ready (gw (srv s2)) H_add_user \<and>
      (\<exists>later. requested (gw (srv s2)) =
          requested (gw (srv s)) @ lease_info r (lease_addr a) (db (srv s)) # later \<and>
        (\<forall>hs. mode s2 = Dispatching (H_add_user # hs) \<longrightarrow>
          (\<exists>s3. run env Dispatch s2 = Inr s3 \<and> registered (gw (srv s3)) (inet_addr a) =
            Some (last (lease_info r (lease_addr a) (db (srv s)) # for_addr (inet_addr a) later))))))"
proof -
  let ?d = "db (srv s)" and ?g = "gw (srv s)"
  let ?i = "lease_info r (lease_addr a) ?d"
  have ok: "gateway_ok ?g" "length (dnsList ?d) \<le> 299" using assms(1) by (simp_all add: sys_ok_def base_ok_def fed_ok_def)
  from create_dhcp_one_leased [OF assms(7) ok assms(5,6)] obtain g1 p gap where
    1: "create_dhcp_one env e r (?d, ?g) = Inr (d1, g1)" "frame p = dhcp_answer gap r (lease_addr a) ?d"
      "queues_answer e (admitted r (lease_addr a) ?d) p ?g g1" by blast
  let ?s1 = "s\<lparr>srv := with_both (d1, g1) (srv s), dhcp_work := rs\<rparr>"
  have run: "run env (Serve_dhcp e) s = Inr ?s1" using 1(1) assms(3) by simp
  have "memory_ok e ?g" "\<not> (\<exists>k. de_err e k)" using assms(7) by (simp_all add: dhcp_env_ok_def)
  with serve_dhcp_ok [OF assms(1,2), of e] run have s1: "sys_ok ?s1" by (simp del: run.simps)
  have req: "requested (gw (srv ?s1)) = requested ?g @ [?i]"
    using 1(3) assms(4) by (simp add: queues_answer_def admitted_def with_both_def)
  have addr: "s_addr (ui_ip ?i) = inet_addr a" by (simp add: lease_info_def lease_addr_def)
  have "ready (gw (srv s2)) H_add_user \<and> (\<exists>later. requested (gw (srv s2)) = requested ?g @ ?i # later \<and>
      (\<forall>hs. mode s2 = Dispatching (H_add_user # hs) \<longrightarrow> (\<exists>s3. run env Dispatch s2 = Inr s3 \<and>
        registered (gw (srv s3)) (inet_addr a) = Some (last (?i # for_addr (inet_addr a) later)))))"
    if r2: "reachable_by (\<lambda>l s. granted l s \<and> \<not> runs_add_user l s) env ?s1 s2" for s2
  proof -
    have "reachable env ?s1 s2" by (rule reachable_by_mono [OF r2]) simp
    then have s2: "sys_ok s2" by (rule reachable_ok [OF _ s1 assms(2)])
    obtain later where l: "requested (gw (srv s2)) = requested ?g @ ?i # later"
      using reachable_requested [OF r2 s1 assms(2)] req by auto
    have "ready (gw (srv s2)) H_add_user"
      using ready_add_user [of "gw (srv s2)"] s2 l by (simp add: sys_ok_def base_ok_def fed_ok_def)
    with l add_user_dispatch [OF s2 _ l addr] show ?thesis by blast
  qed
  with run req 1(2,3) show ?thesis
    by (intro exI [of _ ?s1] exI [of _ p] exI [of _ gap]) (simp add: with_both_def queues_answer_def del: run.simps)
qed

text \<open>The request comes while the forwarding thread is in the event library, before its user handler.\<close>

theorem dhcp_ack_admits_client_witness:
  "\<exists>s1 s2. run exact (Serve_dhcp (calm 1)) (waiting_system\<lparr>mode := Dispatching [H_add_user]\<rparr>) = Inr s1 \<and>
    run exact Dispatch s1 = Inr s2 \<and>
    registered (gw (srv s2)) (inet_addr ''10.0.0.9'') = Some (lease_info (ask False) (lease_addr ''10.0.0.9'') small_db)"
proof -
  let ?s = "waiting_system\<lparr>mode := Dispatching [H_add_user]\<rparr>"
  have s: "db (srv ?s) = small_db" "gw (srv ?s) = idle_gateway" "dhcp_work ?s = [ask False]" "requested (gw (srv ?s)) = []"
    by (simp_all add: waiting_system_def boot_def idle_gateway_ok)
  have ok: "sys_ok ?s"
    using waiting_ok by (simp add: sys_ok_def stage_ok_def waiting_system_def boot_def idle_gateway_def Gateway_new_def
        eq.contents_empty)
  obtain d1 where l: "lease exact (de_now (calm 1)) (dr_mac (ask False)) (db (srv ?s)) = Some (''10.0.0.9'', d1)"
    "selectMACwithIP exact ''10.0.0.9'' d1 \<noteq> []" unfolding s using small_lease by auto
  have e: "dhcp_env_ok (calm 1) (gw (srv ?s))" "\<not> dr_isDiscover (ask False)"
    unfolding s by (simp_all add: dhcp_env_ok_def memory_ok_def idle_gateway_ok) (simp add: calm_def um.find_empty)
  from dhcp_ack_admits_client [OF ok exact_addr s(3) e(2) l e(1)] obtain s1 where
    1: "run exact (Serve_dhcp (calm 1)) ?s = Inr s1"
    "requested (gw (srv s1)) = requested (gw (srv ?s)) @ [lease_info (ask False) (lease_addr ''10.0.0.9'') (db (srv ?s))]"
    "\<forall>s2. reachable_by (\<lambda>l s. granted l s \<and> \<not> runs_add_user l s) exact s1 s2 \<longrightarrow>
      (\<exists>later. requested (gw (srv s2)) = requested (gw (srv ?s)) @
          lease_info (ask False) (lease_addr ''10.0.0.9'') (db (srv ?s)) # later \<and>
        (\<forall>hs. mode s2 = Dispatching (H_add_user # hs) \<longrightarrow>
          (\<exists>s3. run exact Dispatch s2 = Inr s3 \<and> registered (gw (srv s3)) (inet_addr ''10.0.0.9'') =
            Some (last (lease_info (ask False) (lease_addr ''10.0.0.9'') (db (srv ?s)) #
              for_addr (inet_addr ''10.0.0.9'') later)))))" by blast
  have m: "mode s1 = Dispatching (H_add_user # [])" using 1(1) s(3) by auto
  from 1(3) [rule_format, OF reach_start] obtain later s3 where
    "requested (gw (srv s1)) = requested (gw (srv ?s)) @ lease_info (ask False) (lease_addr ''10.0.0.9'') (db (srv ?s)) # later"
    "run exact Dispatch s1 = Inr s3"
    "registered (gw (srv s3)) (inet_addr ''10.0.0.9'') = Some (last (lease_info (ask False) (lease_addr ''10.0.0.9'')
      (db (srv ?s)) # for_addr (inet_addr ''10.0.0.9'') later))" using m by blast
  moreover from this(1) 1(2) have "later = []" by simp
  ultimately show ?thesis using 1(1) unfolding s(1) by (auto simp: for_addr_def simp del: run.simps)
qed

text \<open>
  C25: A signal is not lost. After the signal handler has run, in every state reachable from there the
  forwarding thread has left its loop or its termination handler is ready, and the database thread has
  left its loop or, as soon as it is idle, its termination handler can run; no step in between takes the
  request away.
\<close>

theorem signal_not_lost:
  assumes "sys_ok s0" and "addr_collation env"
    and "run env Signal s0 = Inr s1" and "reachable env s1 s"
  shows "(gotExit (gw (srv s)) \<or> ready (gw (srv s)) H_term) \<and>
    (db_gotExit (db (srv s)) \<or> (dhcp_work s = [] \<and> update_work s = [] \<longrightarrow> enabled Db_term s))"
proof -
  note s1 = run_signal [OF assms(3)]
  have "sys_ok s1" using signal_ok(1) [OF assms(1) s1(1), of env] assms(3) by auto
  moreover have "ending s1" by (simp add: s1(2) with_both_def ending_def terminate_def db_terminate_def)
  ultimately have "ending s" using reachable_ending [OF assms(4) _ assms(2)] by blast
  then show ?thesis by (auto simp: ending_def db_idle_def)
qed

theorem signal_not_lost_witness:
  "\<exists>s. run exact Signal (waiting_system\<lparr>dhcp_work := []\<rparr>) = Inr s \<and> ready (gw (srv s)) H_term \<and> enabled Db_term s"
proof -
  let ?s0 = "waiting_system\<lparr>dhcp_work := []\<rparr>"
  have ok: "sys_ok ?s0" using waiting_ok by (simp add: sys_ok_def)
  have "main_at ?s0 = Joining" by (simp add: waiting_system_def boot_def)
  then obtain s where s: "run exact Signal ?s0 = Inr s" using signal_ok(1) [OF ok] by blast
  have "\<not> gotExit (gw (srv s))" "\<not> db_gotExit (db (srv s))" "dhcp_work s = []" "update_work s = []"
    using run_signal(2) [OF s] by (simp_all add: with_both_def waiting_system_def boot_def terminate_def db_terminate_def
        idle_gateway_def Gateway_new_def small_db_def Database_new_def)
  with signal_not_lost [OF ok exact_addr s reach_start] s show ?thesis by blast
qed

text \<open>
  C13: The end of \<^verbatim>\<open>main\<close>, after any run of the two threads, releases nothing twice and nothing the program does not
  hold, and of everything the two constructors took it leaves exactly this behind: of the database object
  the termination and the update descriptor and the mutex of the updates, which its destructor forgets,
  and the two event bases with their nine events. Both sockets are closed, and all mutexes and descriptors
  of the gateway, the statements and the connection are released.
\<close>

theorem shutdown_releases:
  assumes "start_ok se (length users)" and "names_ok o1" and "tables_readable statics users"
    and "users_in_table statics users" and "wires_fit se"
    and "length (opt_dnsList o1) \<le> 299" and "length m1 = 1514" and "length m2 = 1514"
    and "addr_collation env" and "ret_socket (se_in se) > 0" and "ret_socket (se_out se) > 0"
  shows "\<exists>d g. start se o1 statics users = Inr (d, g) \<and>
    (\<forall>s. reachable env (boot d g m1 m2) s \<longrightarrow>
      (\<exists>h. ledger (program_calls se o1 statics users s) [] = Some h \<and> mset h = mset (left_behind se)))"
proof -
  let ?d = "loaded_db o1 statics users"
  from boot_ok [OF assms(1-8)] obtain g where
    g: "start se o1 statics users = Inr (?d, g)" "still_open (se_in se) (inDev g)" "still_open (se_out se) (outDev g)"
      "sys_ok (boot ?d g m1 m2)" by blast
  obtain i o2 where names: "in_dev o1 = Some i" "out_dev o1 = Some o2" using assms(2) by (auto simp: names_ok_def)
  have "\<exists>h. ledger (program_calls se o1 statics users s) [] = Some h \<and> mset h = mset (left_behind se)"
    if r: "reachable env (boot ?d g m1 m2) s" for s
  proof -
    have "still_open (se_in se) (inDev (gw (srv s)))" "still_open (se_out se) (outDev (gw (srv s)))"
      using reachable_open [OF r g(4) assms(9)] g(2,3) by (simp_all add: boot_def)
    from main_end_balance [OF assms(1,10,11) this] show ?thesis by (simp only: program_calls_def names)
  qed
  with g(1) show ?thesis by blast
qed

theorem shutdown_releases_witness:
  "\<exists>d g h. start good_start good_options [good_row] [good_user] = Inr (d, g) \<and>
    ledger (program_calls good_start good_options [good_row] [good_user]
      (boot d g (replicate 1514 0) (replicate 1514 0))) [] = Some h \<and> mset h = mset (left_behind good_start)"
proof -
  let ?m = "replicate 1514 0 :: byte list"
  have m: "length ?m = 1514" by simp
  have "ret_socket (se_in good_start) > 0" "ret_socket (se_out good_start) > 0" by (simp_all add: good_start_def up_def)
  from shutdown_releases [OF good_start_ok good_tables m m exact_addr this] obtain d g where
    "start good_start good_options [good_row] [good_user] = Inr (d, g)"
    "\<forall>s. reachable exact (boot d g ?m ?m) s \<longrightarrow> (\<exists>h. ledger (program_calls good_start good_options [good_row] [good_user] s) [] =
      Some h \<and> mset h = mset (left_behind good_start))" by blast
  with reach_start [of granted exact "boot d g ?m ?m"] show ?thesis by blast
qed

end
